theory Spec2Isabelle
  imports
    Complex_Main
    "HOL-Library.Log_Nat"
    "HOL-Library.AList"
    "HOL-Library.Char_ord"
    "HOL-Library.List_Lexorder"
    "HOL-Library.Multiset"
    "HOL-Library.Word"
begin

unbundle bit_operations_syntax

section \<open>The platform: what \<^verbatim>\<open>os\<close>, \<^verbatim>\<open>stat\<close> and \<^verbatim>\<open>open\<close> give to dirdiff.py\<close>

text \<open>
  Exceptions that the code of \<^verbatim>\<open>dirdiff.py\<close> can meet. \<^verbatim>\<open>OSError\<close> is what
  \<^verbatim>\<open>os.stat\<close>, \<^verbatim>\<open>os.listdir\<close> and \<^verbatim>\<open>open\<close> raise; the two arithmetic errors come
  from the true division \<^verbatim>\<open>s1/s2\<close> in \<^verbatim>\<open>_is_similar\<close>; \<^verbatim>\<open>KeyError\<close> and
  \<^verbatim>\<open>IndexError\<close> are what a dictionary lookup and a tuple index raise.
\<close>

datatype exn = OSError | ZeroDivisionError | OverflowError | KeyError | IndexError

type_synonym path = string
type_synonym byte = "8 word"

text \<open>
  The three fields of \<^verbatim>\<open>os.stat_result\<close> that the code reads. \<^verbatim>\<open>st_mode\<close> and
  \<^verbatim>\<open>st_size\<close> are Python integers, \<^verbatim>\<open>st_mtime\<close> is a float (a finite binary64 value,
  hence a rational), which the code only stores in the cache key.
\<close>

record stat_result =
  st_mode :: int
  st_size :: int
  st_mtime :: rat

text \<open>
  The file system and the path functions of the host are the environment of the code. A
  failing \<^verbatim>\<open>os.stat\<close>, \<^verbatim>\<open>os.listdir\<close> or \<^verbatim>\<open>open\<close> (an \<^verbatim>\<open>OSError\<close>) is the value
  \<open>None\<close>. \<^verbatim>\<open>os.path.normcase\<close> and \<^verbatim>\<open>os.path.join\<close> are those of the host
  (\<^verbatim>\<open>posixpath\<close> or \<^verbatim>\<open>ntpath\<close>).

  \<^verbatim>\<open>os.stat\<close> follows symbolic links: for a link it reports the file the link leads to.
  What the path itself is, is what \<^verbatim>\<open>os.lstat\<close> reports; \<^verbatim>\<open>dirdiff.py\<close> never calls it, and
  the field \<open>os_lstat\<close> is there to say which paths are symbolic links.
\<close>

record platform =
  os_stat :: "path \<Rightarrow> stat_result option"
  os_lstat :: "path \<Rightarrow> stat_result option"
  os_listdir :: "path \<Rightarrow> string list option"
  file_bytes :: "path \<Rightarrow> byte list option"
  normcase :: "string \<Rightarrow> string"
  path_join :: "path \<Rightarrow> string \<Rightarrow> path"

text \<open>The constants and the function \<^verbatim>\<open>S_IFMT\<close> of the module \<^verbatim>\<open>stat\<close>.\<close>

definition S_IFMT :: "int \<Rightarrow> int" where
  "S_IFMT mode = mode AND 61440"

definition S_IFREG :: int where
  "S_IFREG = 32768"

definition S_IFDIR :: int where
  "S_IFDIR = 16384"

definition S_IFLNK :: int where
  "S_IFLNK = 40960"

definition S_ISDIR :: "int \<Rightarrow> bool" where
  "S_ISDIR mode \<longleftrightarrow> S_IFMT mode = S_IFDIR"

definition S_ISREG :: "int \<Rightarrow> bool" where
  "S_ISREG mode \<longleftrightarrow> S_IFMT mode = S_IFREG"

section \<open>Python's true division of integers and float comparison\<close>

text \<open>
  \<^verbatim>\<open>s1/s2\<close> on two Python integers is the exact quotient rounded to the nearest binary64
  value, ties to the even significand. A finite binary64 value is a rational, so the model
  computes with rationals: \<open>binade a b\<close> is the exponent \<open>e\<close> with
  \<open>2\<^sup>e \<le> a/b < 2\<^sup>e\<^sup>+\<^sup>1\<close> for positive \<open>a\<close> and \<open>b\<close>, the quotient is rounded to a
  multiple of \<open>2\<^sup>e\<^sup>-\<^sup>5\<^sup>2\<close> (of \<open>2\<^sup>-\<^sup>1\<^sup>0\<^sup>7\<^sup>4\<close> in the subnormal range), and a result of
  \<open>2\<^sup>1\<^sup>0\<^sup>2\<^sup>4\<close> or more is Python's \<^verbatim>\<open>OverflowError\<close>.
\<close>

definition round_half_even :: "rat \<Rightarrow> int" where
  "round_half_even x =
     (let n = \<lfloor>x\<rfloor>; r = x - of_int n
      in if r < 1 / 2 then n else if 1 / 2 < r then n + 1 else if even n then n else n + 1)"

definition binade :: "int \<Rightarrow> int \<Rightarrow> int" where
  "binade a b =
     (let d = bitlen a - bitlen b
      in if 2 powi d \<le> (of_int a / of_int b :: rat) then d else d - 1)"

definition round_binary64 :: "int \<Rightarrow> int \<Rightarrow> rat" where
  "round_binary64 a b =
     (let e = max (binade a b) (- 1022)
      in of_int (round_half_even (of_int a / of_int b * 2 powi (52 - e))) * 2 powi (e - 52))"

definition truediv :: "int \<Rightarrow> int \<Rightarrow> exn + rat" where
  "truediv a b =
     (if b = 0 then Inl ZeroDivisionError
      else if a = 0 then Inr 0
      else let r = round_binary64 \<bar>a\<bar> \<bar>b\<bar>
           in if 2 ^ 1024 \<le> r then Inl OverflowError else Inr (of_int (sgn a * sgn b) * r))"

text \<open>The float literals \<^verbatim>\<open>0.8\<close> and \<^verbatim>\<open>1.25\<close>: the binary64 values nearest to 4/5 and 5/4.\<close>

definition float_0_8 :: rat where
  "float_0_8 = round_binary64 4 5"

definition float_1_25 :: rat where
  "float_1_25 = round_binary64 5 4"

section \<open>The file comparison \<^verbatim>\<open>cmp\<close> and its cache\<close>

text \<open>
  \<^verbatim>\<open>_sig(st)\<close>: the triple of file type, size and modification time.
\<close>

type_synonym signature = "int \<times> int \<times> rat"

definition sig :: "stat_result \<Rightarrow> signature" where
  "sig st = (S_IFMT (st_mode st), st_size st, st_mtime st)"

text \<open>
  \<^verbatim>\<open>_is_similar(s1, s2)\<close>. The two \<^verbatim>\<open>print\<close> calls evaluate \<^verbatim>\<open>s1/s2\<close> first, so a failing
  division raises before the return statement; what is printed is not modelled.
\<close>

definition is_similar :: "int \<Rightarrow> int \<Rightarrow> exn + bool" where
  "is_similar s1 s2 =
     (case truediv s1 s2 of
        Inl e \<Rightarrow> Inl e
      | Inr q \<Rightarrow> Inr (float_0_8 \<le> q \<and> q \<le> float_1_25))"

text \<open>
  The module-level dictionary \<^verbatim>\<open>_cache\<close> is an association list in insertion order with
  one entry for each key: \<^verbatim>\<open>_cache.get(k)\<close> is \<open>map_of c k\<close>, \<^verbatim>\<open>_cache[k] = v\<close> is
  \<open>AList.update k v c\<close>, and \<^verbatim>\<open>len(_cache)\<close> is \<open>length c\<close>. The state of the process is
  the cache together with the list of the files opened for reading so far.
\<close>

type_synonym cache_key = "path \<times> path \<times> signature \<times> signature"

record state =
  cache :: "(cache_key \<times> bool) list"
  opened :: "path list"

definition init_state :: state where
  "init_state = \<lparr>cache = [], opened = []\<rparr>"

definition clear_cache :: "state \<Rightarrow> state" where
  "clear_cache s = s\<lparr>cache := []\<rparr>"

definition BUFSIZE :: nat where
  "BUFSIZE = 8 * 1024"

text \<open>
  The loop of \<^verbatim>\<open>_do_cmp\<close> on what is left to read of the two files: \<^verbatim>\<open>read(bufsize)\<close>
  returns the next \<open>BUFSIZE\<close> bytes, fewer at the end of the file and none after it.
\<close>

function do_cmp_loop :: "byte list \<Rightarrow> byte list \<Rightarrow> bool" where
  "do_cmp_loop r1 r2 =
     (if take BUFSIZE r1 \<noteq> take BUFSIZE r2 then False
      else if take BUFSIZE r1 = [] then True
      else do_cmp_loop (drop BUFSIZE r1) (drop BUFSIZE r2))"
  by pat_completeness auto
termination
proof (relation "measure (\<lambda>(r1, r2). length r1)", goal_cases)
  case 1
  show ?case by simp
next
  case (2 r1 r2)
  then have "r1 \<noteq> []" by auto
  then show ?case by (simp add: BUFSIZE_def)
qed

declare do_cmp_loop.simps [simp del]

text \<open>
  \<^verbatim>\<open>_do_cmp(f1, f2)\<close>: the \<^verbatim>\<open>with\<close> statement opens \<^verbatim>\<open>f1\<close>, then \<^verbatim>\<open>f2\<close>; either
  \<^verbatim>\<open>open\<close> can raise \<^verbatim>\<open>OSError\<close>.
\<close>

definition do_cmp :: "platform \<Rightarrow> path \<Rightarrow> path \<Rightarrow> state \<Rightarrow> (exn + bool) \<times> state" where
  "do_cmp P f1 f2 s =
     (case file_bytes P f1 of
        None \<Rightarrow> (Inl OSError, s)
      | Some c1 \<Rightarrow>
          (let s' = s\<lparr>opened := opened s @ [f1]\<rparr>
           in (case file_bytes P f2 of
                 None \<Rightarrow> (Inl OSError, s')
               | Some c2 \<Rightarrow> (Inr (do_cmp_loop c1 c2), s'\<lparr>opened := opened s' @ [f2]\<rparr>))))"

text \<open>
  The part of \<^verbatim>\<open>cmp\<close> after the size test: the lookup in the cache and, when the key
  is absent, the comparison of the contents, the flush of a cache of more than 100
  entries, and the new entry.
\<close>

definition cached_cmp ::
  "platform \<Rightarrow> path \<Rightarrow> path \<Rightarrow> signature \<Rightarrow> signature \<Rightarrow> state \<Rightarrow> (exn + bool) \<times> state" where
  "cached_cmp P f1 f2 s1 s2 s =
     (case map_of (cache s) (f1, f2, s1, s2) of
        Some outcome \<Rightarrow> (Inr outcome, s)
      | None \<Rightarrow>
          (case do_cmp P f1 f2 s of
             (Inl e, s') \<Rightarrow> (Inl e, s')
           | (Inr outcome, s') \<Rightarrow>
               (let s'' = (if 100 < length (cache s') then clear_cache s' else s')
                in (Inr outcome,
                    s''\<lparr>cache := AList.update (f1, f2, s1, s2) outcome (cache s'')\<rparr>))))"

text \<open>
  The operand of \<^verbatim>\<open>shallow and _is_similar(os.stat(f1).st_size, os.stat(f2).st_size)\<close>:
  the call is evaluated only when \<^verbatim>\<open>shallow\<close> holds, and it stats both paths again.
\<close>

definition shallow_similar :: "platform \<Rightarrow> path \<Rightarrow> path \<Rightarrow> bool \<Rightarrow> exn + bool" where
  "shallow_similar P f1 f2 shallow =
     (if shallow
      then (case os_stat P f1 of
              None \<Rightarrow> Inl OSError
            | Some t1 \<Rightarrow>
                (case os_stat P f2 of
                   None \<Rightarrow> Inl OSError
                 | Some t2 \<Rightarrow> is_similar (st_size t1) (st_size t2)))
      else Inr False)"

text \<open>
  \<^verbatim>\<open>cmp(f1, f2, shallow)\<close>, statement by statement. The platform is the same throughout a
  call, so the second \<^verbatim>\<open>os.stat\<close> of a path returns what the first returned; the three
  \<^verbatim>\<open>print\<close> calls are not modelled.
\<close>

definition cmp :: "platform \<Rightarrow> path \<Rightarrow> path \<Rightarrow> bool \<Rightarrow> state \<Rightarrow> (exn + bool) \<times> state" where
  "cmp P f1 f2 shallow s =
     (case os_stat P f1 of
        None \<Rightarrow> (Inl OSError, s)
      | Some st1 \<Rightarrow>
          (case os_stat P f2 of
             None \<Rightarrow> (Inl OSError, s)
           | Some st2 \<Rightarrow>
               (let s1 = sig st1; s2 = sig st2
                in if fst s1 \<noteq> S_IFREG \<or> fst s2 \<noteq> S_IFREG then (Inr False, s)
                   else (case shallow_similar P f1 f2 shallow of
                           Inl e \<Rightarrow> (Inl e, s)
                         | Inr similar \<Rightarrow>
                             if similar then (Inr True, s)
                             else if fst (snd s1) \<noteq> fst (snd s2) then (Inr False, s)
                             else cached_cmp P f1 f2 s1 s2 s))))"

section \<open>Comparing the common files of two directories\<close>

text \<open>
  \<^verbatim>\<open>_cmp(a, b, sh)\<close> returns \<^verbatim>\<open>not abs(cmp(a, b, sh))\<close>, that is \<^verbatim>\<open>False\<close> (the index 0)
  for equal files and \<^verbatim>\<open>True\<close> (the index 1) for different ones, and 2 when \<^verbatim>\<open>cmp\<close>
  raises \<^verbatim>\<open>OSError\<close>. Every other exception leaves the \<^verbatim>\<open>try\<close> statement.
\<close>

definition ucmp :: "platform \<Rightarrow> path \<Rightarrow> path \<Rightarrow> bool \<Rightarrow> state \<Rightarrow> (exn + nat) \<times> state" where
  "ucmp P a b sh s =
     (case cmp P a b sh s of
        (Inl e, s') \<Rightarrow> (if e = OSError then (Inr 2, s') else (Inl e, s'))
      | (Inr outcome, s') \<Rightarrow> (Inr (if outcome then 0 else 1), s'))"

text \<open>\<^verbatim>\<open>res[i].append(x)\<close> on the triple of lists \<^verbatim>\<open>res\<close>.\<close>

type_synonym res = "string list \<times> string list \<times> string list"

fun res_append :: "nat \<Rightarrow> string \<Rightarrow> res \<Rightarrow> exn + res" where
  "res_append i x (r0, r1, r2) =
     (if i = 0 then Inr (r0 @ [x], r1, r2)
      else if i = 1 then Inr (r0, r1 @ [x], r2)
      else if i = 2 then Inr (r0, r1, r2 @ [x])
      else Inl IndexError)"

text \<open>The loop of \<^verbatim>\<open>cmpfiles\<close> over \<^verbatim>\<open>common\<close>, with \<^verbatim>\<open>res\<close> as accumulator.\<close>

fun cmpfiles_loop ::
  "platform \<Rightarrow> path \<Rightarrow> path \<Rightarrow> bool \<Rightarrow> string list \<Rightarrow> res \<Rightarrow> state \<Rightarrow> (exn + res) \<times> state" where
  "cmpfiles_loop P a b shallow [] res s = (Inr res, s)"
| "cmpfiles_loop P a b shallow (x # xs) res s =
     (case ucmp P (path_join P a x) (path_join P b x) shallow s of
        (Inl e, s') \<Rightarrow> (Inl e, s')
      | (Inr i, s') \<Rightarrow>
          (case res_append i x res of
             Inl e \<Rightarrow> (Inl e, s')
           | Inr res' \<Rightarrow> cmpfiles_loop P a b shallow xs res' s'))"

definition cmpfiles ::
  "platform \<Rightarrow> path \<Rightarrow> path \<Rightarrow> string list \<Rightarrow> bool \<Rightarrow> state \<Rightarrow> (exn + res) \<times> state" where
  "cmpfiles P a b common shallow s = cmpfiles_loop P a b shallow common ([], [], []) s"

section \<open>The class \<^verbatim>\<open>dircmp\<close>\<close>

definition DEFAULT_IGNORES :: "string list" where
  "DEFAULT_IGNORES =
     [''RCS'', ''CVS'', ''tags'', ''.git'', ''.hg'', ''.bzr'', ''_darcs'', ''__pycache__'']"

text \<open>The attributes that \<^verbatim>\<open>__init__\<close> sets; \<^verbatim>\<open>os.curdir\<close> and \<^verbatim>\<open>os.pardir\<close> are
  \<^verbatim>\<open>'.'\<close> and \<^verbatim>\<open>'..'\<close> on every host.\<close>

record dircmp =
  left :: path
  right :: path
  hide :: "string list"
  ignore :: "string list"

definition dircmp_init ::
  "path \<Rightarrow> path \<Rightarrow> string list option \<Rightarrow> string list option \<Rightarrow> dircmp" where
  "dircmp_init a b ign hid =
     \<lparr>left = a, right = b,
      hide = (case hid of None \<Rightarrow> [''.'', ''..''] | Some h \<Rightarrow> h),
      ignore = (case ign of None \<Rightarrow> DEFAULT_IGNORES | Some i \<Rightarrow> i)\<rparr>"

text \<open>\<^verbatim>\<open>_filter(flist, skip)\<close>.\<close>

definition filter_skip :: "string list \<Rightarrow> string list \<Rightarrow> string list" where
  "filter_skip flist skip = filter (\<lambda>x. x \<notin> set skip) flist"

text \<open>\<^verbatim>\<open>phase0\<close>: the two filtered and sorted listings \<^verbatim>\<open>left_list\<close> and \<^verbatim>\<open>right_list\<close>.\<close>

definition phase0 :: "platform \<Rightarrow> dircmp \<Rightarrow> exn + (string list \<times> string list)" where
  "phase0 P d =
     (case os_listdir P (left d) of
        None \<Rightarrow> Inl OSError
      | Some l \<Rightarrow>
          (case os_listdir P (right d) of
             None \<Rightarrow> Inl OSError
           | Some r \<Rightarrow>
               Inr (sort (filter_skip l (hide d @ ignore d)),
                    sort (filter_skip r (hide d @ ignore d)))))"

text \<open>
  A Python dictionary built from a list of pairs, \<^verbatim>\<open>dict(pairs)\<close>: a later pair with a
  key already present replaces the value and keeps the position of the key. Iterating a
  dictionary yields its keys in insertion order, \<^verbatim>\<open>d.__contains__\<close> tests for a key and
  \<^verbatim>\<open>d.__getitem__\<close> raises \<^verbatim>\<open>KeyError\<close> for an absent key.
\<close>

definition dict :: "('k \<times> 'v) list \<Rightarrow> ('k \<times> 'v) list" where
  "dict pairs = fold (\<lambda>(k, v). AList.update k v) pairs []"

definition keys :: "('k \<times> 'v) list \<Rightarrow> 'k list" where
  "keys d = map fst d"

definition contains :: "('k \<times> 'v) list \<Rightarrow> 'k \<Rightarrow> bool" where
  "contains d k \<longleftrightarrow> k \<in> set (keys d)"

definition getitem :: "('k \<times> 'v) list \<Rightarrow> 'k \<Rightarrow> exn + 'v" where
  "getitem d k = (case map_of d k of None \<Rightarrow> Inl KeyError | Some v \<Rightarrow> Inr v)"

text \<open>\<^verbatim>\<open>list(map(f, xs))\<close> for an \<open>f\<close> that can raise: the first exception ends it.\<close>

fun map_raising :: "('a \<Rightarrow> exn + 'b) \<Rightarrow> 'a list \<Rightarrow> exn + 'b list" where
  "map_raising f [] = Inr []"
| "map_raising f (x # xs) =
     (case f x of
        Inl e \<Rightarrow> Inl e
      | Inr y \<Rightarrow> (case map_raising f xs of Inl e \<Rightarrow> Inl e | Inr ys \<Rightarrow> Inr (y # ys)))"

text \<open>\<^verbatim>\<open>phase1\<close>: \<^verbatim>\<open>common\<close>, \<^verbatim>\<open>left_only\<close> and \<^verbatim>\<open>right_only\<close> from the two listings.\<close>

definition phase1 ::
  "platform \<Rightarrow> string list \<Rightarrow> string list \<Rightarrow> exn + (string list \<times> string list \<times> string list)" where
  "phase1 P left_list right_list =
     (let a = dict (zip (map (normcase P) left_list) left_list);
          b = dict (zip (map (normcase P) right_list) right_list)
      in case map_raising (getitem a) (filter (contains b) (keys a)) of
           Inl e \<Rightarrow> Inl e
         | Inr common \<Rightarrow>
             (case map_raising (getitem a) (filter (\<lambda>k. \<not> contains b k) (keys a)) of
                Inl e \<Rightarrow> Inl e
              | Inr left_only \<Rightarrow>
                  (case map_raising (getitem b) (filter (\<lambda>k. \<not> contains a k) (keys b)) of
                     Inl e \<Rightarrow> Inl e
                   | Inr right_only \<Rightarrow> Inr (common, left_only, right_only))))"

text \<open>
  One round of the loop of \<^verbatim>\<open>phase2\<close> on the name \<open>x\<close>: the lists \<^verbatim>\<open>common_dirs\<close>,
  \<^verbatim>\<open>common_files\<close> and \<^verbatim>\<open>common_funny\<close> after it. A failing \<^verbatim>\<open>os.stat\<close> sets
  \<^verbatim>\<open>ok = 0\<close>.
\<close>

definition phase2_step :: "platform \<Rightarrow> dircmp \<Rightarrow> string \<Rightarrow> res \<Rightarrow> res" where
  "phase2_step P d x acc =
     (case acc of (common_dirs, common_files, common_funny) \<Rightarrow>
        (let a_path = path_join P (left d) x; b_path = path_join P (right d) x
         in case (os_stat P a_path, os_stat P b_path) of
              (Some a_stat, Some b_stat) \<Rightarrow>
                (let a_type = S_IFMT (st_mode a_stat); b_type = S_IFMT (st_mode b_stat)
                 in if a_type \<noteq> b_type then (common_dirs, common_files, common_funny @ [x])
                    else if S_ISDIR a_type then (common_dirs @ [x], common_files, common_funny)
                    else if S_ISREG a_type then (common_dirs, common_files @ [x], common_funny)
                    else (common_dirs, common_files, common_funny @ [x]))
            | _ \<Rightarrow> (common_dirs, common_files, common_funny @ [x])))"

definition phase2 :: "platform \<Rightarrow> dircmp \<Rightarrow> string list \<Rightarrow> res" where
  "phase2 P d common = fold (phase2_step P d) common ([], [], [])"

text \<open>\<^verbatim>\<open>phase3\<close>: \<^verbatim>\<open>cmpfiles\<close> with its default \<^verbatim>\<open>shallow=True\<close>.\<close>

definition phase3 :: "platform \<Rightarrow> dircmp \<Rightarrow> string list \<Rightarrow> state \<Rightarrow> (exn + res) \<times> state" where
  "phase3 P d common_files s = cmpfiles P (left d) (right d) common_files True s"

section \<open>Sequences of calls and example file systems\<close>

text \<open>
  The state of the process after a sequence of calls \<^verbatim>\<open>cmp(f1, f2, shallow)\<close>, whatever
  each of them returned or raised.
\<close>

definition run_cmps :: "platform \<Rightarrow> (path \<times> path \<times> bool) list \<Rightarrow> state \<Rightarrow> state" where
  "run_cmps P calls s = fold (\<lambda>(f1, f2, shallow) s'. snd (cmp P f1 f2 shallow s')) calls s"

text \<open>
  The cache agrees with the file system \<open>P\<close>: each entry holds the result of comparing
  the contents that its two paths have in \<open>P\<close>.
\<close>

definition cache_sound :: "platform \<Rightarrow> (cache_key \<times> bool) list \<Rightarrow> bool" where
  "cache_sound P c \<longleftrightarrow>
     (\<forall>f1 f2 s1 s2 v. ((f1, f2, s1, s2), v) \<in> set c \<longrightarrow>
        (\<exists>c1 c2. file_bytes P f1 = Some c1 \<and> file_bytes P f2 = Some c2 \<and> v = (c1 = c2)))"

text \<open>
  \<^verbatim>\<open>posixpath.join(a, b)\<close> and \<^verbatim>\<open>posixpath.normcase\<close> of a POSIX host, and
  \<^verbatim>\<open>ntpath.normcase\<close> of a Windows host on ASCII names (it replaces \<^verbatim>\<open>/\<close> by \<^verbatim>\<open>\\<close> and
  lowers the case).
\<close>

definition posix_join :: "path \<Rightarrow> string \<Rightarrow> path" where
  "posix_join a b =
     (if take 1 b = ''/'' then b
      else if a = [] \<or> last a = CHR ''/'' then a @ b
      else a @ ''/'' @ b)"

definition posix_normcase :: "string \<Rightarrow> string" where
  "posix_normcase s = s"

definition ascii_lower :: "char \<Rightarrow> char" where
  "ascii_lower c =
     (if 65 \<le> (of_char c :: nat) \<and> (of_char c :: nat) \<le> 90 then char_of (of_char c + 32 :: nat)
      else c)"

definition nt_normcase :: "string \<Rightarrow> string" where
  "nt_normcase s = map (\<lambda>c. ascii_lower (if c = CHR ''/'' then CHR 0x5C else c)) s"

text \<open>
  The \<^verbatim>\<open>stat\<close> results of a regular file (mode \<^verbatim>\<open>0o100644\<close>) and of a directory
  (mode \<^verbatim>\<open>0o40755\<close>), and a file of \<open>n\<close> zero bytes.
\<close>

definition regular_file :: "int \<Rightarrow> rat \<Rightarrow> stat_result" where
  "regular_file n t = \<lparr>st_mode = 33188, st_size = n, st_mtime = t\<rparr>"

definition directory :: stat_result where
  "directory = \<lparr>st_mode = 16877, st_size = 4096, st_mtime = 0\<rparr>"

definition zeros :: "nat \<Rightarrow> byte list" where
  "zeros n = replicate n 0"

text \<open>
  A POSIX file system with two directories \<^verbatim>\<open>L\<close> and \<^verbatim>\<open>R\<close>. Both hold \<^verbatim>\<open>a\<close> (100 and
  110 bytes), \<^verbatim>\<open>b\<close> (100 and 200 bytes), \<^verbatim>\<open>e\<close> (5 bytes and empty), \<^verbatim>\<open>x\<close> (8193 bytes that
  differ in the last one, same modification time), the directory \<^verbatim>\<open>sub\<close> and \<^verbatim>\<open>gone\<close>,
  which is listed on both sides and cannot be stat'ed on the right. \<^verbatim>\<open>L/y\<close> has the
  contents of \<^verbatim>\<open>L/x\<close> and another modification time. The listings are those of a moment
  at which \<^verbatim>\<open>e\<close> is not there yet.
\<close>

definition example_stat :: "(path \<times> stat_result) list" where
  "example_stat =
     [(''L'', directory), (''R'', directory),
      (''L/a'', regular_file 100 1), (''R/a'', regular_file 110 2),
      (''L/b'', regular_file 100 1), (''R/b'', regular_file 200 2),
      (''L/e'', regular_file 5 1), (''R/e'', regular_file 0 2),
      (''L/x'', regular_file 8193 3), (''R/x'', regular_file 8193 3),
      (''L/y'', regular_file 8193 4),
      (''L/sub'', directory), (''R/sub'', directory),
      (''L/gone'', regular_file 1 1)]"

definition example_bytes :: "(path \<times> byte list) list" where
  "example_bytes =
     [(''L/a'', replicate 100 1), (''R/a'', replicate 110 2),
      (''L/b'', replicate 100 1), (''R/b'', replicate 200 2),
      (''L/e'', [1, 2, 3, 4, 5]), (''R/e'', []),
      (''L/x'', zeros 8192 @ [1]), (''R/x'', zeros 8192 @ [2]),
      (''L/y'', zeros 8192 @ [1]),
      (''L/gone'', [7])]"

definition example_listdir :: "(path \<times> string list) list" where
  "example_listdir =
     [(''L'', [''x'', ''a'', ''gone'', ''sub'', ''.git'', ''y'', ''b'']),
      (''R'', [''sub'', ''gone'', ''b'', ''a'', ''x'', ''.git''])]"

definition example :: platform where
  "example =
     \<lparr>os_stat = map_of example_stat, os_lstat = map_of example_stat,
      os_listdir = map_of example_listdir,
      file_bytes = map_of example_bytes, normcase = posix_normcase, path_join = posix_join\<rparr>"

text \<open>
  Two sparse files of zero bytes: \<^verbatim>\<open>A\<close> of \<open>5 \<sqdot> 2\<^sup>5\<^sup>1 + 1\<close> bytes and \<^verbatim>\<open>B\<close> of \<open>2\<^sup>5\<^sup>3\<close>
  bytes. The quotient of the sizes is \<open>5/4 + 2\<^sup>-\<^sup>5\<^sup>3\<close>.
\<close>

definition sparse_example :: platform where
  "sparse_example =
     \<lparr>os_stat = map_of [(''A'', regular_file 11258999068426241 1),
                        (''B'', regular_file 9007199254740992 1)],
      os_lstat = map_of [(''A'', regular_file 11258999068426241 1),
                         (''B'', regular_file 9007199254740992 1)],
      os_listdir = map_of [],
      file_bytes = map_of [(''A'', zeros 11258999068426241), (''B'', zeros 9007199254740992)],
      normcase = posix_normcase, path_join = posix_join\<rparr>"

text \<open>
  A directory of eleven empty regular files \<^verbatim>\<open>a\<close> to \<^verbatim>\<open>k\<close>, and the first \<open>n\<close> of the 121
  deep comparisons of one of them with one of them: \<open>n\<close> calls of \<^verbatim>\<open>cmp\<close> with \<open>n\<close> different
  cache keys.
\<close>

definition eleven_names :: "string list" where
  "eleven_names = [''a'', ''b'', ''c'', ''d'', ''e'', ''f'', ''g'', ''h'', ''i'', ''j'', ''k'']"

definition eleven_files :: platform where
  "eleven_files =
     \<lparr>os_stat = (\<lambda>p. if p \<in> set eleven_names then Some (regular_file 0 0) else None),
      os_lstat = (\<lambda>p. if p \<in> set eleven_names then Some (regular_file 0 0) else None),
      os_listdir = map_of [(''.'', eleven_names)],
      file_bytes = (\<lambda>p. if p \<in> set eleven_names then Some [] else None),
      normcase = posix_normcase, path_join = posix_join\<rparr>"

definition deep_calls :: "nat \<Rightarrow> (path \<times> path \<times> bool) list" where
  "deep_calls n =
     take n (map (\<lambda>(f1, f2). (f1, f2, False)) (List.product eleven_names eleven_names))"

text \<open>
  The list to which the loop of \<^verbatim>\<open>phase2\<close> appends the name \<open>x\<close>: 0 for
  \<^verbatim>\<open>common_dirs\<close>, 1 for \<^verbatim>\<open>common_files\<close> and 2 for \<^verbatim>\<open>common_funny\<close>.
\<close>

definition entry_class :: "platform \<Rightarrow> dircmp \<Rightarrow> string \<Rightarrow> nat" where
  "entry_class P d x =
     (case phase2_step P d x ([], [], []) of
        (common_dirs, common_files, common_funny) \<Rightarrow>
          if common_dirs \<noteq> [] then 0 else if common_files \<noteq> [] then 1 else 2)"

text \<open>
  What \<^verbatim>\<open>_cmp\<close> returns or raises in shallow mode for the name \<open>x\<close> of the directories
  \<open>a\<close> and \<open>b\<close>, called with an empty cache.
\<close>

definition shallow_index :: "platform \<Rightarrow> path \<Rightarrow> path \<Rightarrow> string \<Rightarrow> exn + nat" where
  "shallow_index P a b x = fst (ucmp P (path_join P a x) (path_join P b x) True init_state)"

text \<open>The object \<^verbatim>\<open>dircmp('L', 'R')\<close> for the two directories of the example.\<close>

definition example_dircmp :: dircmp where
  "example_dircmp = dircmp_init ''L'' ''R'' None None"

text \<open>
  A Windows host with a case-insensitive file system: \<^verbatim>\<open>L\<close> holds the file \<^verbatim>\<open>Foo\<close> and
  \<^verbatim>\<open>R\<close> holds the file \<^verbatim>\<open>foo\<close>. \<^verbatim>\<open>ntpath.join\<close> of a directory name without a trailing
  separator and a plain name puts a backslash between them.
\<close>

definition nt_example :: platform where
  "nt_example =
     \<lparr>os_stat = (\<lambda>p. map_of [(''l'', directory), (''r'', directory),
                               (''l'' @ [CHR 0x5C] @ ''foo'', regular_file 3 1),
                               (''r'' @ [CHR 0x5C] @ ''foo'', regular_file 3 2)] (nt_normcase p)),
      os_lstat = (\<lambda>p. map_of [(''l'', directory), (''r'', directory),
                                (''l'' @ [CHR 0x5C] @ ''foo'', regular_file 3 1),
                                (''r'' @ [CHR 0x5C] @ ''foo'', regular_file 3 2)] (nt_normcase p)),
      os_listdir = (\<lambda>p. map_of [(''l'', [''Foo'']), (''r'', [''foo''])] (nt_normcase p)),
      file_bytes = (\<lambda>p. map_of [(''l'' @ [CHR 0x5C] @ ''foo'', [1, 2, 3]),
                                  (''r'' @ [CHR 0x5C] @ ''foo'', [1, 2, 3])] (nt_normcase p)),
      normcase = nt_normcase,
      path_join = (\<lambda>a b. a @ [CHR 0x5C] @ b)\<rparr>"

text \<open>
  A POSIX directory with the regular file \<^verbatim>\<open>target\<close> of three bytes and the symbolic link
  \<^verbatim>\<open>ln\<close> to it (mode \<^verbatim>\<open>0o120777\<close>; the size of a link is the length of the name it
  holds): \<^verbatim>\<open>os.stat\<close> and \<^verbatim>\<open>open\<close> on \<^verbatim>\<open>ln\<close> reach \<^verbatim>\<open>target\<close>.
\<close>

definition symlink :: stat_result where
  "symlink = \<lparr>st_mode = 41471, st_size = 6, st_mtime = 2\<rparr>"

definition link_example :: platform where
  "link_example =
     \<lparr>os_stat = map_of [(''target'', regular_file 3 1), (''ln'', regular_file 3 1)],
      os_lstat = map_of [(''target'', regular_file 3 1), (''ln'', symlink)],
      os_listdir = map_of [],
      file_bytes = map_of [(''target'', [1, 2, 3]), (''ln'', [1, 2, 3])],
      normcase = posix_normcase, path_join = posix_join\<rparr>"

text \<open>
  A file system at two moments. At the first, \<^verbatim>\<open>t1\<close> and \<^verbatim>\<open>t2\<close> hold the same three bytes;
  at the second, \<^verbatim>\<open>t2\<close> holds three other bytes and has the size and the modification
  time that it had. \<open>stale_state\<close> is the state of the process after
  \<^verbatim>\<open>cmp('t1', 't2', shallow=False)\<close> at the first moment.
\<close>

definition stale_before :: platform where
  "stale_before =
     \<lparr>os_stat = map_of [(''t1'', regular_file 3 1), (''t2'', regular_file 3 1)],
      os_lstat = map_of [(''t1'', regular_file 3 1), (''t2'', regular_file 3 1)],
      os_listdir = map_of [],
      file_bytes = map_of [(''t1'', [1, 2, 3]), (''t2'', [1, 2, 3])],
      normcase = posix_normcase, path_join = posix_join\<rparr>"

definition stale_after :: platform where
  "stale_after =
     \<lparr>os_stat = map_of [(''t1'', regular_file 3 1), (''t2'', regular_file 3 1)],
      os_lstat = map_of [(''t1'', regular_file 3 1), (''t2'', regular_file 3 1)],
      os_listdir = map_of [],
      file_bytes = map_of [(''t1'', [1, 2, 3]), (''t2'', [9, 9, 9])],
      normcase = posix_normcase, path_join = posix_join\<rparr>"

definition stale_state :: state where
  "stale_state = snd (cmp stale_before ''t1'' ''t2'' False init_state)"

section \<open>Properties of the rounded quotient\<close>

lemma float_0_8_value: "float_0_8 = 7205759403792794 / 2 ^ 53"
  unfolding float_0_8_def by code_simp

lemma float_1_25_value: "float_1_25 = 5 / 4"
  unfolding float_1_25_def by code_simp

lemma round_half_even_upper: "of_int (round_half_even x) \<le> x + 1 / 2"
  unfolding round_half_even_def Let_def by (auto; linarith)

lemma round_half_even_lower: "x - 1 / 2 \<le> of_int (round_half_even x)"
  unfolding round_half_even_def Let_def by (auto; linarith)

lemma round_half_even_le:
  assumes "x \<le> of_int k"
  shows "round_half_even x \<le> k"
proof -
  have "(of_int (round_half_even x) :: rat) < of_int k + 1"
    using round_half_even_upper [of x] assms by linarith
  then have "(of_int (round_half_even x) :: rat) < of_int (k + 1)" by simp
  then show ?thesis unfolding of_int_less_iff by linarith
qed

lemma round_half_even_ge:
  assumes "of_int k \<le> x"
  shows "k \<le> round_half_even x"
proof -
  have "(of_int (k - 1) :: rat) < of_int (round_half_even x)"
    using round_half_even_lower [of x] assms by simp
  then show ?thesis unfolding of_int_less_iff by linarith
qed

lemma round_half_even_less:
  assumes "x < of_int k - 1 / 2"
  shows "round_half_even x < k"
proof -
  have "(of_int (round_half_even x) :: rat) < of_int k"
    using round_half_even_upper [of x] assms by linarith
  then show ?thesis unfolding of_int_less_iff .
qed

lemma round_half_even_greater:
  assumes "of_int k + 1 / 2 < x"
  shows "k < round_half_even x"
proof -
  have "(of_int k :: rat) < of_int (round_half_even x)"
    using round_half_even_lower [of x] assms by linarith
  then show ?thesis unfolding of_int_less_iff .
qed

lemma bitlen_powi_bounds:
  assumes "0 < a"
  shows "(2::rat) powi (bitlen a - 1) \<le> of_int a" and "(of_int a :: rat) < 2 powi (bitlen a)"
proof -
  have pos: "1 \<le> bitlen a" using assms by (simp add: bitlen_alt_def)
  have "(2::int) ^ nat (bitlen a - 1) \<le> a" and "a < 2 ^ nat (bitlen a)"
    using bitlen_bounds [OF assms] by simp_all
  then have "(of_int ((2::int) ^ nat (bitlen a - 1)) :: rat) \<le> of_int a"
    and "(of_int a :: rat) < of_int (2 ^ nat (bitlen a))"
    unfolding of_int_le_iff of_int_less_iff by simp_all
  then show "(2::rat) powi (bitlen a - 1) \<le> of_int a" and "(of_int a :: rat) < 2 powi (bitlen a)"
    using pos by (simp_all add: power_int_def)
qed

lemma two_powi_less_imp:
  assumes "(2::rat) powi m < 2 powi n"
  shows "m < n"
proof (rule ccontr)
  assume "\<not> m < n"
  then have "(2::rat) powi n \<le> 2 powi m"
    by (intro power_int_increasing) simp_all
  with assms show False by simp
qed

lemma two_powi_add: "(2::rat) powi m * 2 powi n = 2 powi (m + n)"
  by (simp add: power_int_add)

lemma two_powi_diff: "(2::rat) powi m / 2 powi n = 2 powi (m - n)"
  by (simp add: power_int_diff)

lemma two_powi_scale:
  "(2::rat) powi m * 2 powi (k - m) = of_int (2 ^ nat k)" if "0 \<le> k"
proof -
  have "(2::rat) powi m * 2 powi (k - m) = 2 powi k"
    unfolding two_powi_add by simp
  also have "\<dots> = of_int (2 ^ nat k)"
    using that by (simp add: power_int_def)
  finally show ?thesis .
qed

lemma two_powi_unscale:
  "(of_int (2 ^ nat k) :: rat) * 2 powi (m - k) = 2 powi m" if "0 \<le> k"
proof -
  have "(of_int (2 ^ nat k) :: rat) = 2 powi k"
    using that by (simp add: power_int_def)
  then have "(of_int (2 ^ nat k) :: rat) * 2 powi (m - k) = 2 powi k * 2 powi (m - k)"
    by (rule arg_cong)
  also have "\<dots> = 2 powi m"
    unfolding two_powi_add by simp
  finally show ?thesis .
qed

lemma binade_bounds:
  assumes "0 < a" and "0 < b"
  shows "(2::rat) powi (binade a b) \<le> of_int a / of_int b"
    and "of_int a / of_int b < (2::rat) powi (binade a b + 1)"
proof -
  let ?q = "of_int a / of_int b :: rat"
  let ?d = "bitlen a - bitlen b"
  note A = bitlen_powi_bounds [OF assms(1)]
  note B = bitlen_powi_bounds [OF assms(2)]
  have "?q < 2 powi (bitlen a) / 2 powi (bitlen b - 1)"
    by (rule frac_less) (use A B assms in simp_all)
  also have "\<dots> = 2 powi (bitlen a - (bitlen b - 1))"
    by (rule two_powi_diff)
  also have "bitlen a - (bitlen b - 1) = ?d + 1"
    by simp
  finally have up: "?q < 2 powi (?d + 1)" .
  have "2 powi (bitlen a - 1) / 2 powi (bitlen b) < ?q"
    by (rule frac_less2) (use A B assms in simp_all)
  moreover have "(2::rat) powi (bitlen a - 1) / 2 powi (bitlen b) = 2 powi (bitlen a - 1 - bitlen b)"
    by (rule two_powi_diff)
  moreover have "bitlen a - 1 - bitlen b = ?d - 1"
    by simp
  ultimately have lo: "2 powi (?d - 1) < ?q" by simp
  show "(2::rat) powi (binade a b) \<le> ?q"
    using lo by (simp add: binade_def Let_def)
  show "?q < (2::rat) powi (binade a b + 1)"
    using up by (simp add: binade_def Let_def)
qed

lemma binade_unique:
  assumes "0 < a" and "0 < b"
    and "(2::rat) powi e \<le> of_int a / of_int b" and "of_int a / of_int b < (2::rat) powi (e + 1)"
  shows "binade a b = e"
proof -
  have "(2::rat) powi (binade a b) < 2 powi (e + 1)"
    using binade_bounds(1) [OF assms(1,2)] assms(4) by linarith
  then have "binade a b < e + 1"
    by (rule two_powi_less_imp)
  moreover have "(2::rat) powi e < 2 powi (binade a b + 1)"
    using binade_bounds(2) [OF assms(1,2)] assms(3) by linarith
  then have "e < binade a b + 1"
    by (rule two_powi_less_imp)
  ultimately show ?thesis by simp
qed

text \<open>The scaled quotient that \<open>round_binary64\<close> rounds to an integer.\<close>

lemma round_binary64_unfold:
  "round_binary64 a b =
     of_int (round_half_even (of_int a / of_int b * 2 powi (52 - max (binade a b) (- 1022))))
       * 2 powi (max (binade a b) (- 1022) - 52)"
  by (simp add: round_binary64_def Let_def)

lemma round_binary64_upper:
  assumes "0 < a" and "0 < b"
  shows "round_binary64 a b \<le> 2 powi (max (binade a b) (- 1022) + 1)"
proof -
  let ?q = "of_int a / of_int b :: rat"
  define e where "e = max (binade a b) (- 1022)"
  let ?m = "round_half_even (?q * 2 powi (52 - e))"
  have "?q < 2 powi (binade a b + 1)"
    by (rule binade_bounds(2) [OF assms])
  also have "\<dots> \<le> 2 powi (e + 1)"
    by (intro power_int_increasing) (simp_all add: e_def)
  finally have lt: "?q < 2 powi (e + 1)" .
  have "?q * 2 powi (53 - (e + 1)) < 2 powi (e + 1) * 2 powi (53 - (e + 1))"
    using lt by (rule mult_strict_right_mono) simp
  also have "\<dots> = of_int (2 ^ nat 53)"
    by (rule two_powi_scale) simp
  finally have "?q * 2 powi (52 - e) \<le> of_int (2 ^ nat 53)"
    by simp
  then have "?m \<le> 2 ^ nat 53"
    by (rule round_half_even_le)
  then have "(of_int ?m :: rat) \<le> of_int (2 ^ nat 53)"
    unfolding of_int_le_iff .
  then have "of_int ?m * 2 powi (e + 1 - 53) \<le> (of_int (2 ^ nat 53) :: rat) * 2 powi (e + 1 - 53)"
    by (rule mult_right_mono) simp
  also have "\<dots> = 2 powi (e + 1)"
    by (rule two_powi_unscale) simp
  finally have "of_int ?m * 2 powi (e - 52) \<le> (2::rat) powi (e + 1)"
    by simp
  then show ?thesis
    unfolding round_binary64_unfold e_def .
qed

lemma round_binary64_lower:
  assumes "0 < a" and "0 < b" and "- 1022 \<le> binade a b"
  shows "2 powi (binade a b) \<le> round_binary64 a b"
proof -
  let ?q = "of_int a / of_int b :: rat"
  define e where "e = binade a b"
  let ?m = "round_half_even (?q * 2 powi (52 - e))"
  have e: "max (binade a b) (- 1022) = e"
    using assms(3) by (simp add: e_def)
  have "(2::rat) powi e * 2 powi (52 - e) \<le> ?q * 2 powi (52 - e)"
    using binade_bounds(1) [OF assms(1,2)] unfolding e_def by (rule mult_right_mono) simp
  moreover have "2 powi e * 2 powi (52 - e) = (of_int (2 ^ nat 52) :: rat)"
    by (rule two_powi_scale) simp
  ultimately have "of_int (2 ^ nat 52) \<le> ?q * 2 powi (52 - e)"
    by simp
  then have "2 ^ nat 52 \<le> ?m"
    by (rule round_half_even_ge)
  then have "(of_int (2 ^ nat 52) :: rat) \<le> of_int ?m"
    unfolding of_int_le_iff .
  then have le: "(of_int (2 ^ nat 52) :: rat) * 2 powi (e - 52) \<le> of_int ?m * 2 powi (e - 52)"
    by (rule mult_right_mono) simp
  have "(2::rat) powi e = of_int (2 ^ nat 52) * 2 powi (e - 52)"
    by (rule two_powi_unscale [symmetric]) simp
  also note le
  finally have "(2::rat) powi e \<le> of_int ?m * 2 powi (e - 52)" .
  then show ?thesis
    unfolding round_binary64_unfold e unfolding e_def .
qed

lemma round_binary64_in_interval:
  assumes "0 < a" and "0 < b" and "4 * b \<le> 5 * a" and "4 * a \<le> 5 * b"
  shows "float_0_8 \<le> round_binary64 a b" and "round_binary64 a b \<le> float_1_25"
proof -
  let ?q = "of_int a / of_int b :: rat"
  have bpos: "(0::rat) < of_int b" using assms(2) by simp
  have "(of_int (4 * b) :: rat) \<le> of_int (5 * a)" and "(of_int (4 * a) :: rat) \<le> of_int (5 * b)"
    unfolding of_int_le_iff using assms(3,4) by simp_all
  then have q: "4 / 5 \<le> ?q" "?q \<le> 5 / 4"
    using bpos by (simp_all add: field_simps)
  have both: "float_0_8 \<le> round_binary64 a b \<and> round_binary64 a b \<le> float_1_25"
  proof (cases "a < b")
    case True
    then have "?q < 1" using bpos by simp
    then have "?q < 2 powi (- 1 + 1)" by simp
    moreover have "2 powi (- 1) \<le> ?q"
      using q(1) by (simp add: power_int_minus)
    ultimately have e: "binade a b = - 1"
      using binade_unique [OF assms(1,2), of "- 1"] by blast
    have "of_int 7205759403792793 + 1 / 2 < (4 / 5 :: rat) * 2 powi 53"
      by simp
    also have "\<dots> \<le> ?q * 2 powi 53"
      using q(1) by (rule mult_right_mono) simp
    finally have "7205759403792793 < round_half_even (?q * 2 powi 53)"
      by (rule round_half_even_greater)
    then have "(of_int 7205759403792794 :: rat) \<le> of_int (round_half_even (?q * 2 powi 53))"
      unfolding of_int_le_iff by simp
    then have "(of_int 7205759403792794 :: rat) * 2 powi (- 53)
        \<le> of_int (round_half_even (?q * 2 powi 53)) * 2 powi (- 53)"
      by (rule mult_right_mono) simp
    then have lo: "float_0_8 \<le> round_binary64 a b"
      unfolding round_binary64_unfold e float_0_8_value by (simp add: power_int_minus)
    have "round_binary64 a b \<le> 2 powi (max (binade a b) (- 1022) + 1)"
      by (rule round_binary64_upper [OF assms(1,2)])
    then have "round_binary64 a b \<le> 1"
      unfolding e by simp
    with lo show ?thesis
      unfolding float_1_25_value by simp
  next
    case False
    then have "1 \<le> ?q" using bpos by simp
    then have "2 powi 0 \<le> ?q" by simp
    moreover have "?q < 2" using q(2) by linarith
    then have "?q < 2 powi (0 + 1)" by simp
    ultimately have e: "binade a b = 0"
      using binade_unique [OF assms(1,2), of 0] by blast
    have "2 powi (binade a b) \<le> round_binary64 a b"
      by (rule round_binary64_lower [OF assms(1,2)]) (simp add: e)
    then have lo: "float_0_8 \<le> round_binary64 a b"
      unfolding e float_0_8_value by simp
    have "?q * 2 powi 52 \<le> (5 / 4) * 2 powi 52"
      using q(2) by (rule mult_right_mono) simp
    also have "\<dots> = of_int 5629499534213120"
      by simp
    finally have "round_half_even (?q * 2 powi 52) \<le> 5629499534213120"
      by (rule round_half_even_le)
    then have "(of_int (round_half_even (?q * 2 powi 52)) :: rat) \<le> of_int 5629499534213120"
      unfolding of_int_le_iff .
    then have "of_int (round_half_even (?q * 2 powi 52)) * 2 powi (- 52)
        \<le> (of_int 5629499534213120 :: rat) * 2 powi (- 52)"
      by (rule mult_right_mono) simp
    then have "round_binary64 a b \<le> float_1_25"
      unfolding round_binary64_unfold e float_1_25_value by (simp add: power_int_minus)
    with lo show ?thesis by simp
  qed
  from both show "float_0_8 \<le> round_binary64 a b" by simp
  from both show "round_binary64 a b \<le> float_1_25" by simp
qed

lemma round_binary64_below:
  assumes "0 < a" and "0 < b" and "5 * a < 4 * b" and "b < 2 ^ 54"
  shows "round_binary64 a b < float_0_8"
proof (cases "2 * a < b")
  case True
  let ?q = "of_int a / of_int b :: rat"
  have bpos: "(0::rat) < of_int b" using assms(2) by simp
  have "(of_int (2 * a) :: rat) < of_int b"
    unfolding of_int_less_iff using True .
  then have "?q < 1 / 2"
    using bpos by (simp add: field_simps)
  moreover have half: "(2::rat) powi (- 1) = 1 / 2"
    by (simp add: power_int_minus)
  ultimately have "(2::rat) powi (binade a b) < 2 powi (- 1)"
    unfolding half using binade_bounds(1) [OF assms(1,2)] by linarith
  then have "binade a b < - 1"
    by (rule two_powi_less_imp)
  then have "max (binade a b) (- 1022) + 1 \<le> - 1"
    by simp
  then have "(2::rat) powi (max (binade a b) (- 1022) + 1) \<le> 2 powi (- 1)"
    by (rule power_int_increasing) simp
  then have "round_binary64 a b \<le> 1 / 2"
    using round_binary64_upper [OF assms(1,2)] by (simp add: power_int_minus)
  then show ?thesis
    unfolding float_0_8_value by simp
next
  case False
  let ?q = "of_int a / of_int b :: rat"
  have bpos: "(0::rat) < of_int b" using assms(2) by simp
  have "(of_int b :: rat) \<le> of_int (2 * a)"
    unfolding of_int_le_iff using False by simp
  then have "1 / 2 \<le> ?q"
    using bpos by (simp add: field_simps)
  then have "2 powi (- 1) \<le> ?q"
    by (simp add: power_int_minus)
  moreover have "(of_int (5 * a) :: rat) < of_int (4 * b)"
    unfolding of_int_less_iff using assms(3) .
  then have "?q < 4 / 5"
    using bpos by (simp add: field_simps)
  then have "?q < 1" by linarith
  then have "?q < 2 powi (- 1 + 1)" by simp
  ultimately have e: "binade a b = - 1"
    using binade_unique [OF assms(1,2), of "- 1"] by blast
  have "a * 18014398509481984 < 14411518807585587 * b"
    using assms(3,4) by simp
  then have "(of_int (a * 18014398509481984) :: rat) < of_int (14411518807585587 * b)"
    unfolding of_int_less_iff .
  then have "?q * 2 powi 53 < of_int 7205759403792794 - 1 / 2"
    using bpos by (simp add: field_simps)
  then have "round_half_even (?q * 2 powi 53) < 7205759403792794"
    by (rule round_half_even_less)
  then have "(of_int (round_half_even (?q * 2 powi 53)) :: rat) < of_int 7205759403792794"
    unfolding of_int_less_iff .
  then have "of_int (round_half_even (?q * 2 powi 53)) * 2 powi (- 53)
      < (of_int 7205759403792794 :: rat) * 2 powi (- 53)"
    by (rule mult_strict_right_mono) simp
  then show ?thesis
    unfolding round_binary64_unfold e float_0_8_value by (simp add: power_int_minus)
qed

lemma round_binary64_above:
  assumes "0 < a" and "0 < b" and "5 * b < 4 * a" and "b < 2 ^ 51"
  shows "float_1_25 < round_binary64 a b"
proof (cases "2 * b \<le> a")
  case True
  let ?q = "of_int a / of_int b :: rat"
  have bpos: "(0::rat) < of_int b" using assms(2) by simp
  have "(of_int (2 * b) :: rat) \<le> of_int a"
    unfolding of_int_le_iff using True .
  then have "2 \<le> ?q"
    using bpos by (simp add: field_simps)
  then have "(2::rat) powi 1 < 2 powi (binade a b + 1)"
    using binade_bounds(2) [OF assms(1,2)] by simp
  then have "1 < binade a b + 1"
    by (rule two_powi_less_imp)
  then have e: "1 \<le> binade a b" by simp
  then have "(2::rat) powi 1 \<le> 2 powi (binade a b)"
    by (rule power_int_increasing) simp
  moreover have "2 powi (binade a b) \<le> round_binary64 a b"
    by (rule round_binary64_lower [OF assms(1,2)]) (use e in simp)
  ultimately have "2 \<le> round_binary64 a b" by simp
  then show ?thesis
    unfolding float_1_25_value by simp
next
  case False
  let ?q = "of_int a / of_int b :: rat"
  have bpos: "(0::rat) < of_int b" using assms(2) by simp
  have "(of_int a :: rat) < of_int (2 * b)"
    unfolding of_int_less_iff using False by simp
  then have "?q < 2"
    using bpos by (simp add: field_simps)
  then have "?q < 2 powi (0 + 1)" by simp
  moreover have "(of_int b :: rat) \<le> of_int a"
    unfolding of_int_le_iff using assms(2,3) by simp
  then have "1 \<le> ?q"
    using bpos by (simp add: field_simps)
  then have "2 powi 0 \<le> ?q" by simp
  ultimately have e: "binade a b = 0"
    using binade_unique [OF assms(1,2), of 0] by blast
  have "11258999068426241 * b < a * 9007199254740992"
    using assms(3,4) by simp
  then have "(of_int (11258999068426241 * b) :: rat) < of_int (a * 9007199254740992)"
    unfolding of_int_less_iff .
  then have "of_int 5629499534213120 + 1 / 2 < ?q * 2 powi 52"
    using bpos by (simp add: field_simps)
  then have "5629499534213120 < round_half_even (?q * 2 powi 52)"
    by (rule round_half_even_greater)
  then have "(of_int 5629499534213120 :: rat) < of_int (round_half_even (?q * 2 powi 52))"
    unfolding of_int_less_iff .
  then have "(of_int 5629499534213120 :: rat) * 2 powi (- 52)
      < of_int (round_half_even (?q * 2 powi 52)) * 2 powi (- 52)"
    by (rule mult_strict_right_mono) simp
  then show ?thesis
    unfolding round_binary64_unfold e float_1_25_value by (simp add: power_int_minus)
qed

lemma round_binary64_finite:
  assumes "0 < a" and "0 < b" and "a < 2 ^ 1023"
  shows "round_binary64 a b < 2 ^ 1024"
proof -
  let ?q = "of_int a / of_int b :: rat"
  have "(of_int 1 :: rat) \<le> of_int b"
    unfolding of_int_le_iff using assms(2) by simp
  then have "?q \<le> of_int a"
    using assms(1) by (simp add: field_simps mult_left_mono)
  also have "(of_int a :: rat) < of_int (2 ^ 1023)"
    unfolding of_int_less_iff using assms(3) .
  finally have "?q < 2 powi 1023" by simp
  then have "(2::rat) powi (binade a b) < 2 powi 1023"
    using binade_bounds(1) [OF assms(1,2)] by linarith
  then have "binade a b < 1023"
    by (rule two_powi_less_imp)
  then have "max (binade a b) (- 1022) + 1 \<le> 1023"
    by simp
  then have "(2::rat) powi (max (binade a b) (- 1022) + 1) \<le> 2 powi 1023"
    by (rule power_int_increasing) simp
  then have "round_binary64 a b \<le> 2 powi 1023"
    using round_binary64_upper [OF assms(1,2)] by linarith
  also have "(2::rat) powi 1023 < 2 powi 1024"
    by (rule power_int_strict_increasing) simp_all
  finally show ?thesis by simp
qed

text \<open>What \<^verbatim>\<open>_is_similar\<close> returns, in terms of the exact quotient of the two sizes.\<close>

lemma is_similar_zero_divisor: "is_similar a 0 = Inl ZeroDivisionError"
  by (simp add: is_similar_def truediv_def)

lemma is_similar_inside:
  assumes "0 < a" and "0 < b" and "4 * b \<le> 5 * a" and "4 * a \<le> 5 * b"
  shows "is_similar a b = Inr True"
proof -
  note I = round_binary64_in_interval [OF assms]
  have "round_binary64 a b < 2 ^ 1024"
    using I(2) unfolding float_1_25_value by simp
  then show ?thesis
    using assms(1,2) I by (simp add: is_similar_def truediv_def Let_def)
qed

lemma is_similar_outside:
  assumes "0 \<le> a" and "0 < b" and "a < 2 ^ 51" and "b < 2 ^ 51"
    and "5 * a < 4 * b \<or> 5 * b < 4 * a"
  shows "is_similar a b = Inr False"
proof (cases "a = 0")
  case True
  then show ?thesis
    using assms(2) by (simp add: is_similar_def truediv_def float_0_8_value)
next
  case False
  then have a: "0 < a" using assms(1) by simp
  have "a < 2 ^ 1023"
    using assms(3) by simp
  then have fin: "\<not> 2 ^ 1024 \<le> round_binary64 a b"
    using round_binary64_finite [OF a assms(2)] by simp
  have "b < 2 ^ 54"
    using assms(4) by simp
  then have "round_binary64 a b < float_0_8 \<or> float_1_25 < round_binary64 a b"
    using assms(5) round_binary64_below [OF a assms(2)] round_binary64_above [OF a assms(2) _ assms(4)]
    by blast
  then show ?thesis
    using a assms(2) fin by (auto simp add: is_similar_def truediv_def Let_def)
qed

lemma is_similar_same:
  assumes "a \<noteq> 0"
  shows "is_similar a a = Inr True"
proof -
  have pos: "0 < \<bar>a\<bar>" using assms by simp
  note I = round_binary64_in_interval [OF pos pos]
  have "round_binary64 \<bar>a\<bar> \<bar>a\<bar> < 2 ^ 1024"
    using I(2) unfolding float_1_25_value by simp
  moreover have "sgn a * sgn a = 1"
    using assms by (simp add: sgn_if)
  ultimately show ?thesis
    using assms I by (simp add: is_similar_def truediv_def Let_def)
qed

section \<open>Claims about \<^verbatim>\<open>cmp\<close>\<close>

lemma do_cmp_loop_eq: "do_cmp_loop r1 r2 \<longleftrightarrow> r1 = r2"
proof (induction r1 r2 rule: do_cmp_loop.induct)
  case (1 r1 r2)
  show ?case
  proof (cases "take BUFSIZE r1 = take BUFSIZE r2")
    case False
    then have "r1 \<noteq> r2" by auto
    with False show ?thesis
      by (subst do_cmp_loop.simps) simp
  next
    case same: True
    show ?thesis
    proof (cases "take BUFSIZE r1 = []")
      case True
      with same have "r1 = []" and "r2 = []"
        by (simp_all add: BUFSIZE_def)
      with same show ?thesis
        by (subst do_cmp_loop.simps) simp
    next
      case False
      have "r1 = r2 \<longleftrightarrow> drop BUFSIZE r1 = drop BUFSIZE r2"
        using same by (metis append_take_drop_id)
      with 1 same False show ?thesis
        by (subst do_cmp_loop.simps) simp
    qed
  qed
qed

lemma length_zeros [simp]: "length (zeros n) = n"
  by (simp add: zeros_def)

lemma example_stats:
  "os_stat example ''L'' = Some directory"
  "os_stat example ''L/a'' = Some (regular_file 100 1)"
  "os_stat example ''R/a'' = Some (regular_file 110 2)"
  "os_stat example ''L/b'' = Some (regular_file 100 1)"
  "os_stat example ''R/b'' = Some (regular_file 200 2)"
  "os_stat example ''L/e'' = Some (regular_file 5 1)"
  "os_stat example ''R/e'' = Some (regular_file 0 2)"
  "os_stat example ''L/x'' = Some (regular_file 8193 3)"
  "os_stat example ''R/x'' = Some (regular_file 8193 3)"
  "os_stat example ''L/y'' = Some (regular_file 8193 4)"
  "os_stat example ''L/gone'' = Some (regular_file 1 1)"
  "os_stat example ''R/gone'' = None"
  by (simp_all add: example_def example_stat_def)

lemma example_contents:
  "file_bytes example ''L/x'' = Some (zeros 8192 @ [1])"
  "file_bytes example ''R/x'' = Some (zeros 8192 @ [2])"
  "file_bytes example ''L/y'' = Some (zeros 8192 @ [1])"
  by (simp_all add: example_def example_bytes_def)

lemma regular_file_is_regular [simp]:
  "S_IFMT (st_mode (regular_file n t)) = S_IFREG"
  "st_size (regular_file n t) = n"
  "st_mtime (regular_file n t) = t"
  by (simp_all add: regular_file_def S_IFMT_def S_IFREG_def)

lemma directory_is_not_regular [simp]:
  "S_IFMT (st_mode directory) \<noteq> S_IFREG"
  "S_IFMT (st_mode directory) = S_IFDIR"
  by (simp_all add: directory_def S_IFMT_def S_IFREG_def S_IFDIR_def)

text \<open>
  C8, as stated, fails for a symbolic link: \<^verbatim>\<open>cmp\<close> looks at a path with \<^verbatim>\<open>os.stat\<close>,
  which follows links. The path \<^verbatim>\<open>ln\<close> is a symbolic link and not a regular file, its
  signature is that of the regular file it leads to, and \<^verbatim>\<open>cmp\<close> finds it equal to that
  file in both modes.
\<close>

theorem cmp_symlink_counterexample:
  "os_lstat link_example ''ln'' = Some symlink
   \<and> S_IFMT (st_mode symlink) = S_IFLNK \<and> S_IFMT (st_mode symlink) \<noteq> S_IFREG
   \<and> os_stat link_example ''ln'' = Some (regular_file 3 1)
   \<and> os_stat link_example ''target'' = Some (regular_file 3 1)
   \<and> fst (cmp link_example ''ln'' ''target'' True init_state) = Inr True
   \<and> fst (cmp link_example ''ln'' ''target'' False init_state) = Inr True"
proof -
  have st: "os_stat link_example ''ln'' = Some (regular_file 3 1)"
    "os_stat link_example ''target'' = Some (regular_file 3 1)"
    "os_lstat link_example ''ln'' = Some symlink"
    by (simp_all add: link_example_def)
  have "S_IFMT (st_mode symlink) = S_IFLNK" and "S_IFMT (st_mode symlink) \<noteq> S_IFREG"
    by (simp_all add: symlink_def S_IFMT_def S_IFLNK_def S_IFREG_def)
  moreover have "fst (cmp link_example ''ln'' ''target'' True init_state) = Inr True"
    by (simp add: cmp_def st shallow_similar_def is_similar_same sig_def Let_def)
  moreover have "fst (cmp link_example ''ln'' ''target'' False init_state) = Inr True"
    by (simp add: cmp_def st shallow_similar_def sig_def cached_cmp_def do_cmp_def
        init_state_def Let_def)
      (simp add: link_example_def do_cmp_loop_eq)
  ultimately show ?thesis
    by (simp add: st)
qed

text \<open>
  C8, amended: for every pair of stat-able paths for at least one of which \<^verbatim>\<open>os.stat\<close>
  reports a type other than regular file (a directory, a device, a symbolic link to one
  of these), \<^verbatim>\<open>cmp\<close> returns \<^verbatim>\<open>False\<close>, in shallow and in deep mode; the state is left as
  it was.
\<close>

theorem cmp_not_regular:
  assumes "os_stat P f1 = Some st1" and "os_stat P f2 = Some st2"
    and "S_IFMT (st_mode st1) \<noteq> S_IFREG \<or> S_IFMT (st_mode st2) \<noteq> S_IFREG"
  shows "cmp P f1 f2 shallow s = (Inr False, s)"
  using assms by (simp add: cmp_def sig_def Let_def)

theorem cmp_not_regular_witness:
  "os_stat example ''L'' = Some directory \<and> os_stat example ''L/a'' = Some (regular_file 100 1)
   \<and> S_IFMT (st_mode directory) \<noteq> S_IFREG
   \<and> cmp example ''L'' ''L/a'' True init_state = (Inr False, init_state)
   \<and> cmp example ''L/a'' ''L'' False init_state = (Inr False, init_state)"
  using cmp_not_regular [of example "''L''" directory "''L/a''" "regular_file 100 1" True init_state]
    cmp_not_regular [of example "''L/a''" "regular_file 100 1" "''L''" directory False init_state]
  by (simp add: example_stats S_IFDIR_def S_IFREG_def)

text \<open>
  C9: in shallow mode, two regular files of which the second is empty make \<^verbatim>\<open>cmp\<close> raise
  \<^verbatim>\<open>ZeroDivisionError\<close>; \<^verbatim>\<open>_cmp\<close> does not catch it, and \<^verbatim>\<open>cmpfiles\<close> on a list with such
  a name raises instead of returning its three lists.
\<close>

theorem cmp_shallow_zero_division:
  assumes "os_stat P f1 = Some st1" and "os_stat P f2 = Some st2"
    and "S_IFMT (st_mode st1) = S_IFREG" and "S_IFMT (st_mode st2) = S_IFREG"
    and "st_size st2 = 0"
    and "path_join P a x = f1" and "path_join P b x = f2"
  shows "cmp P f1 f2 True s = (Inl ZeroDivisionError, s)
    \<and> ucmp P f1 f2 True s = (Inl ZeroDivisionError, s)
    \<and> cmpfiles P a b (x # xs) True s = (Inl ZeroDivisionError, s)
    \<and> (x \<in> set common \<longrightarrow> (\<exists>e s'. cmpfiles P a b common True s = (Inl e, s')))"
proof -
  have c: "cmp P f1 f2 True s = (Inl ZeroDivisionError, s)" for s
    using assms(1-5)
    by (simp add: cmp_def sig_def Let_def shallow_similar_def is_similar_zero_divisor)
  then have u: "ucmp P f1 f2 True s = (Inl ZeroDivisionError, s)" for s
    by (simp add: ucmp_def)
  then have hd: "cmpfiles P a b (x # xs) True s = (Inl ZeroDivisionError, s)"
    by (simp add: cmpfiles_def assms(6,7))
  have "x \<in> set common \<Longrightarrow> \<exists>e s'. cmpfiles_loop P a b True common res s = (Inl e, s')" for res s
  proof (induction common arbitrary: res s)
    case Nil
    then show ?case by simp
  next
    case (Cons y ys)
    show ?case
    proof (cases "y = x")
      case True
      then show ?thesis by (simp add: u assms(6,7))
    next
      case False
      with Cons.prems have "x \<in> set ys" by simp
      then show ?thesis
        using Cons.IH by (auto split: prod.splits sum.splits)
    qed
  qed
  then have "x \<in> set common \<longrightarrow> (\<exists>e s'. cmpfiles P a b common True s = (Inl e, s'))"
    by (simp add: cmpfiles_def)
  with c u hd show ?thesis by blast
qed

theorem cmp_shallow_zero_division_witness:
  "os_stat example ''L/e'' = Some (regular_file 5 1)
   \<and> os_stat example ''R/e'' = Some (regular_file 0 2)
   \<and> path_join example ''L'' ''e'' = ''L/e'' \<and> path_join example ''R'' ''e'' = ''R/e''
   \<and> cmp example ''L/e'' ''R/e'' True init_state = (Inl ZeroDivisionError, init_state)
   \<and> ucmp example ''L/e'' ''R/e'' True init_state = (Inl ZeroDivisionError, init_state)
   \<and> cmpfiles example ''L'' ''R'' [''e'', ''a''] True init_state = (Inl ZeroDivisionError, init_state)
   \<and> (\<exists>e s'. cmpfiles example ''L'' ''R'' [''a'', ''e'', ''b''] True init_state = (Inl e, s'))"
proof -
  have j: "path_join example ''L'' ''e'' = ''L/e''" "path_join example ''R'' ''e'' = ''R/e''"
    by (simp_all add: example_def posix_join_def)
  show ?thesis
    using cmp_shallow_zero_division [OF example_stats(6,7) regular_file_is_regular(1)
        regular_file_is_regular(1) regular_file_is_regular(2) j,
        of init_state "[''a'']" "[''a'', ''e'', ''b'']"]
    by (simp add: j example_stats)
qed

text \<open>
  C2, as stated, fails: in deep mode \<^verbatim>\<open>cmp\<close> tests \<^verbatim>\<open>s1[1] != s2[1]\<close>, the sizes only.
  \<^verbatim>\<open>L/x\<close> and \<^verbatim>\<open>L/y\<close> have the same size and contents and different modification times:
  their signatures differ, both files are opened and read, and the result is \<^verbatim>\<open>True\<close>.
\<close>

theorem cmp_deep_mtime_counterexample:
  "os_stat example ''L/x'' = Some (regular_file 8193 3)
   \<and> os_stat example ''L/y'' = Some (regular_file 8193 4)
   \<and> sig (regular_file 8193 3) \<noteq> sig (regular_file 8193 4)
   \<and> fst (cmp example ''L/x'' ''L/y'' False init_state) = Inr True
   \<and> opened (snd (cmp example ''L/x'' ''L/y'' False init_state)) = [''L/x'', ''L/y'']"
  by (simp add: example_stats example_contents cmp_def sig_def shallow_similar_def
      cached_cmp_def do_cmp_def do_cmp_loop_eq init_state_def Let_def)

text \<open>
  C2, amended: in deep mode, for every pair of regular files whose sizes differ, \<^verbatim>\<open>cmp\<close>
  returns \<^verbatim>\<open>False\<close> and leaves the state as it was: no file is opened, the cache is not
  touched.
\<close>

theorem cmp_deep_sizes_differ:
  assumes "os_stat P f1 = Some st1" and "os_stat P f2 = Some st2"
    and "S_IFMT (st_mode st1) = S_IFREG" and "S_IFMT (st_mode st2) = S_IFREG"
    and "st_size st1 \<noteq> st_size st2"
  shows "cmp P f1 f2 False s = (Inr False, s)"
  using assms by (simp add: cmp_def sig_def Let_def shallow_similar_def)

theorem cmp_deep_sizes_differ_witness:
  "os_stat example ''L/a'' = Some (regular_file 100 1)
   \<and> os_stat example ''R/a'' = Some (regular_file 110 2)
   \<and> st_size (regular_file 100 1) \<noteq> st_size (regular_file 110 2)
   \<and> cmp example ''L/a'' ''R/a'' False init_state = (Inr False, init_state)"
  using cmp_deep_sizes_differ [OF example_stats(2,3) regular_file_is_regular(1)
      regular_file_is_regular(1), of init_state]
  by (simp add: example_stats)

lemma cmp_shallow_regular:
  assumes "os_stat P f1 = Some st1" and "os_stat P f2 = Some st2"
    and "S_IFMT (st_mode st1) = S_IFREG" and "S_IFMT (st_mode st2) = S_IFREG"
  shows "is_similar (st_size st1) (st_size st2) = Inr True \<Longrightarrow> cmp P f1 f2 True s = (Inr True, s)"
    and "is_similar (st_size st1) (st_size st2) = Inr False \<Longrightarrow> st_size st1 \<noteq> st_size st2
      \<Longrightarrow> cmp P f1 f2 True s = (Inr False, s)"
    and "is_similar (st_size st1) (st_size st2) = Inl e \<Longrightarrow> cmp P f1 f2 True s = (Inl e, s)"
  using assms by (simp_all add: cmp_def sig_def Let_def shallow_similar_def)

lemma ratio_inside_iff:
  fixes a b :: int
  assumes "0 < b"
  shows "4 / 5 \<le> (of_int a / of_int b :: rat) \<and> (of_int a / of_int b :: rat) \<le> 5 / 4
    \<longleftrightarrow> 4 * b \<le> 5 * a \<and> 4 * a \<le> 5 * b"
proof -
  have bpos: "(0::rat) < of_int b" using assms by simp
  have "4 / 5 \<le> (of_int a / of_int b :: rat) \<longleftrightarrow> (of_int (4 * b) :: rat) \<le> of_int (5 * a)"
    using bpos by (simp add: field_simps)
  moreover have "(of_int a / of_int b :: rat) \<le> 5 / 4 \<longleftrightarrow> (of_int (4 * a) :: rat) \<le> of_int (5 * b)"
    using bpos by (simp add: field_simps)
  ultimately show ?thesis
    unfolding of_int_le_iff by simp
qed

lemma sparse_stats:
  "os_stat sparse_example ''A'' = Some (regular_file 11258999068426241 1)"
  "os_stat sparse_example ''B'' = Some (regular_file 9007199254740992 1)"
  by (simp_all add: sparse_example_def)

lemma round_binary64_sparse:
  "round_binary64 11258999068426241 9007199254740992 = 5 / 4"
  "round_binary64 9007199254740992 11258999068426241 = 7205759403792793 / 2 ^ 53"
  by code_simp+

lemma is_similar_sparse:
  "is_similar 11258999068426241 9007199254740992 = Inr True"
  "is_similar 9007199254740992 11258999068426241 = Inr False"
  by (simp_all add: is_similar_def truediv_def round_binary64_sparse float_0_8_value
      float_1_25_value)

text \<open>
  C4, as stated, fails in its second half: the quotient of the sizes of \<^verbatim>\<open>A\<close> and \<^verbatim>\<open>B\<close>
  is above 5/4, outside the interval, but the float \<^verbatim>\<open>s1/s2\<close> is the quotient rounded to
  binary64, which is \<^verbatim>\<open>1.25\<close>, and \<^verbatim>\<open>cmp\<close> returns \<^verbatim>\<open>True\<close>.
\<close>

theorem cmp_shallow_ratio_counterexample:
  "os_stat sparse_example ''A'' = Some (regular_file 11258999068426241 1)
   \<and> os_stat sparse_example ''B'' = Some (regular_file 9007199254740992 1)
   \<and> (5 / 4 :: rat) < 11258999068426241 / 9007199254740992
   \<and> cmp sparse_example ''A'' ''B'' True init_state = (Inr True, init_state)"
  using cmp_shallow_regular(1) [OF sparse_stats regular_file_is_regular(1)
      regular_file_is_regular(1), of init_state]
  by (simp add: sparse_stats is_similar_sparse)

text \<open>
  C4, amended: in shallow mode, for every pair of regular files with a non-empty second
  file, \<^verbatim>\<open>cmp\<close> returns \<^verbatim>\<open>True\<close> when the quotient of the sizes lies in the closed interval
  from 4/5 to 5/4, and \<^verbatim>\<open>False\<close> when it lies outside and both sizes are below \<open>2\<^sup>5\<^sup>1\<close>;
  in both cases the state is left as it was, so no content is read.
\<close>

theorem cmp_shallow_ratio:
  assumes "os_stat P f1 = Some st1" and "os_stat P f2 = Some st2"
    and "S_IFMT (st_mode st1) = S_IFREG" and "S_IFMT (st_mode st2) = S_IFREG"
    and "0 \<le> st_size st1" and "0 < st_size st2"
  shows "(4 / 5 \<le> (of_int (st_size st1) / of_int (st_size st2) :: rat)
        \<and> (of_int (st_size st1) / of_int (st_size st2) :: rat) \<le> 5 / 4
      \<longrightarrow> cmp P f1 f2 True s = (Inr True, s))
    \<and> (\<not> (4 / 5 \<le> (of_int (st_size st1) / of_int (st_size st2) :: rat)
          \<and> (of_int (st_size st1) / of_int (st_size st2) :: rat) \<le> 5 / 4)
        \<and> st_size st1 < 2 ^ 51 \<and> st_size st2 < 2 ^ 51
      \<longrightarrow> cmp P f1 f2 True s = (Inr False, s))"
proof -
  let ?a = "st_size st1" and ?b = "st_size st2"
  note R = ratio_inside_iff [OF assms(6), of ?a]
  have "cmp P f1 f2 True s = (Inr True, s)" if "4 * ?b \<le> 5 * ?a" and "4 * ?a \<le> 5 * ?b"
  proof -
    have "0 < ?a" using that(1) assms(6) by linarith
    then have "is_similar ?a ?b = Inr True"
      using assms(6) that by (rule is_similar_inside)
    then show ?thesis
      by (rule cmp_shallow_regular(1) [OF assms(1-4)])
  qed
  moreover have "cmp P f1 f2 True s = (Inr False, s)"
    if "\<not> (4 * ?b \<le> 5 * ?a \<and> 4 * ?a \<le> 5 * ?b)" and "?a < 2 ^ 51" and "?b < 2 ^ 51"
  proof -
    have out: "5 * ?a < 4 * ?b \<or> 5 * ?b < 4 * ?a"
      using that(1) by linarith
    have "is_similar ?a ?b = Inr False"
      using assms(5,6) that(2,3) out by (rule is_similar_outside)
    moreover have "?a \<noteq> ?b"
      using out assms(6) by linarith
    ultimately show ?thesis
      by (rule cmp_shallow_regular(2) [OF assms(1-4)])
  qed
  ultimately show ?thesis
    unfolding R by blast
qed

theorem cmp_shallow_ratio_witness:
  "os_stat example ''L/a'' = Some (regular_file 100 1)
   \<and> os_stat example ''R/a'' = Some (regular_file 110 2)
   \<and> os_stat example ''R/b'' = Some (regular_file 200 2)
   \<and> file_bytes example ''L/a'' \<noteq> file_bytes example ''R/a''
   \<and> cmp example ''L/a'' ''R/a'' True init_state = (Inr True, init_state)
   \<and> cmp example ''L/a'' ''R/b'' True init_state = (Inr False, init_state)"
proof -
  have "file_bytes example ''L/a'' \<noteq> file_bytes example ''R/a''"
    by (simp add: example_def example_bytes_def)
  then show ?thesis
    using cmp_shallow_ratio [OF example_stats(2,3) regular_file_is_regular(1)
        regular_file_is_regular(1), of init_state]
      cmp_shallow_ratio [OF example_stats(2,5) regular_file_is_regular(1)
        regular_file_is_regular(1), of init_state]
    by (simp add: example_stats)
qed

text \<open>
  C10, as stated, fails: the set of size pairs that \<^verbatim>\<open>_is_similar\<close> accepts is not closed
  under exchanging the two sizes, because the rounded quotient is compared and not the
  exact one. \<^verbatim>\<open>cmp\<close> in shallow mode finds \<^verbatim>\<open>A\<close> equal to \<^verbatim>\<open>B\<close> and \<^verbatim>\<open>B\<close> different
  from \<^verbatim>\<open>A\<close>.
\<close>

theorem cmp_shallow_symmetry_counterexample:
  "os_stat sparse_example ''A'' = Some (regular_file 11258999068426241 1)
   \<and> os_stat sparse_example ''B'' = Some (regular_file 9007199254740992 1)
   \<and> cmp sparse_example ''A'' ''B'' True init_state = (Inr True, init_state)
   \<and> cmp sparse_example ''B'' ''A'' True init_state = (Inr False, init_state)"
  using cmp_shallow_regular(1) [OF sparse_stats regular_file_is_regular(1)
      regular_file_is_regular(1), of init_state]
    cmp_shallow_regular(2) [OF sparse_stats(2,1) regular_file_is_regular(1)
      regular_file_is_regular(1), of init_state]
  by (simp add: sparse_stats is_similar_sparse)

text \<open>
  C10, amended: for every pair of regular files with positive sizes below \<open>2\<^sup>5\<^sup>1\<close>,
  \<^verbatim>\<open>cmp(a, b, shallow=True)\<close> and \<^verbatim>\<open>cmp(b, a, shallow=True)\<close> return the same result, in
  whatever states they are called, and leave the state as it was.
\<close>

theorem cmp_shallow_symmetric:
  assumes "os_stat P f1 = Some st1" and "os_stat P f2 = Some st2"
    and "S_IFMT (st_mode st1) = S_IFREG" and "S_IFMT (st_mode st2) = S_IFREG"
    and "0 < st_size st1" and "st_size st1 < 2 ^ 51"
    and "0 < st_size st2" and "st_size st2 < 2 ^ 51"
  shows "fst (cmp P f1 f2 True s) = fst (cmp P f2 f1 True s')
    \<and> snd (cmp P f1 f2 True s) = s \<and> snd (cmp P f2 f1 True s') = s'"
proof (cases "4 * st_size st2 \<le> 5 * st_size st1 \<and> 4 * st_size st1 \<le> 5 * st_size st2")
  case True
  have "is_similar (st_size st1) (st_size st2) = Inr True"
    using assms(5,7) True by (intro is_similar_inside) simp_all
  moreover have "is_similar (st_size st2) (st_size st1) = Inr True"
    using assms(5,7) True by (intro is_similar_inside) simp_all
  ultimately show ?thesis
    using cmp_shallow_regular(1) [OF assms(1-4), of s]
      cmp_shallow_regular(1) [OF assms(2,1,4,3), of s']
    by simp
next
  case False
  then have out: "5 * st_size st1 < 4 * st_size st2 \<or> 5 * st_size st2 < 4 * st_size st1"
    by linarith
  have "is_similar (st_size st1) (st_size st2) = Inr False"
    using assms(5-8) out by (intro is_similar_outside) simp_all
  moreover have "is_similar (st_size st2) (st_size st1) = Inr False"
    using assms(5-8) out by (intro is_similar_outside) auto
  moreover have "st_size st1 \<noteq> st_size st2"
    using out assms(5) by linarith
  ultimately show ?thesis
    using cmp_shallow_regular(2) [OF assms(1-4), of s]
      cmp_shallow_regular(2) [OF assms(2,1,4,3), of s']
    by simp
qed

theorem cmp_shallow_symmetric_witness:
  "os_stat example ''L/a'' = Some (regular_file 100 1)
   \<and> os_stat example ''R/a'' = Some (regular_file 110 2)
   \<and> fst (cmp example ''L/a'' ''R/a'' True init_state) = Inr True
   \<and> fst (cmp example ''R/a'' ''L/a'' True init_state) = Inr True"
proof -
  have "fst (cmp example ''L/a'' ''R/a'' True init_state)
      = fst (cmp example ''R/a'' ''L/a'' True init_state)"
    using cmp_shallow_symmetric [OF example_stats(2,3) regular_file_is_regular(1)
        regular_file_is_regular(1), of init_state init_state]
    by simp
  moreover have "is_similar 100 110 = Inr True"
    by (rule is_similar_inside) simp_all
  then have "cmp example ''L/a'' ''R/a'' True init_state = (Inr True, init_state)"
    using cmp_shallow_regular(1) [OF example_stats(2,3) regular_file_is_regular(1)
        regular_file_is_regular(1), of init_state]
    by simp
  ultimately show ?thesis
    by (simp add: example_stats)
qed

section \<open>The cache\<close>

lemma length_update_le: "length (AList.update k v al) \<le> Suc (length al)"
  by (induction al) auto

lemma length_update_absent:
  "k \<notin> fst ` set al \<Longrightarrow> length (AList.update k v al) = Suc (length al)"
  by (induction al) auto

lemma cached_cmp_cache_change:
  "cache (snd (cached_cmp P f1 f2 s1 s2 s)) = cache s
   \<or> (map_of (cache s) (f1, f2, s1, s2) = None
      \<and> (\<exists>v. cache (snd (cached_cmp P f1 f2 s1 s2 s))
            = AList.update (f1, f2, s1, s2) v (if 100 < length (cache s) then [] else cache s)))"
  by (auto simp: cached_cmp_def do_cmp_def Let_def clear_cache_def
      split: option.splits sum.splits prod.splits)

lemma cmp_cases:
  "snd (cmp P f1 f2 sh s) = s
   \<or> (\<exists>st1 st2. os_stat P f1 = Some st1 \<and> os_stat P f2 = Some st2
        \<and> cmp P f1 f2 sh s = cached_cmp P f1 f2 (sig st1) (sig st2) s)"
  by (auto simp: cmp_def Let_def split: option.splits sum.splits)

lemma cmp_cache_change:
  "cache (snd (cmp P f1 f2 sh s)) = cache s
   \<or> (\<exists>k v. map_of (cache s) k = None
      \<and> cache (snd (cmp P f1 f2 sh s))
            = AList.update k v (if 100 < length (cache s) then [] else cache s))"
proof -
  consider "snd (cmp P f1 f2 sh s) = s"
    | st1 st2 where "cmp P f1 f2 sh s = cached_cmp P f1 f2 (sig st1) (sig st2) s"
    using cmp_cases by blast
  then show ?thesis
  proof cases
    case 1
    then show ?thesis by simp
  next
    case 2
    show ?thesis
      using cached_cmp_cache_change [of P f1 f2 "sig st1" "sig st2" s] unfolding 2 by blast
  qed
qed

lemma cmp_cache_length:
  assumes "length (cache s) \<le> 101"
  shows "length (cache (snd (cmp P f1 f2 sh s))) \<le> 101"
proof -
  consider "cache (snd (cmp P f1 f2 sh s)) = cache s"
    | k v where "cache (snd (cmp P f1 f2 sh s))
        = AList.update k v (if 100 < length (cache s) then [] else cache s)"
    using cmp_cache_change by blast
  then show ?thesis
  proof cases
    case 1
    with assms show ?thesis by simp
  next
    case 2
    show ?thesis
      unfolding 2 using length_update_le [of k v "cache s"] by auto
  qed
qed

lemma run_cmps_cache_length:
  "length (cache s) \<le> 101 \<Longrightarrow> length (cache (run_cmps P calls s)) \<le> 101"
  unfolding run_cmps_def
  by (induction calls arbitrary: s) (auto simp: cmp_cache_length)

lemma eleven_miss:
  assumes "f1 \<in> set eleven_names" and "f2 \<in> set eleven_names"
    and "(f1, f2, sig (regular_file 0 0), sig (regular_file 0 0)) \<notin> fst ` set (cache s)"
  shows "cache (snd (cmp eleven_files f1 f2 False s))
    = AList.update (f1, f2, sig (regular_file 0 0), sig (regular_file 0 0)) True
        (if 100 < length (cache s) then [] else cache s)"
proof -
  have "map_of (cache s) (f1, f2, sig (regular_file 0 0), sig (regular_file 0 0)) = None"
    using assms(3) by (simp add: map_of_eq_None_iff)
  then show ?thesis
    using assms(1,2)
    by (simp add: cmp_def eleven_files_def shallow_similar_def cached_cmp_def do_cmp_def
        do_cmp_loop_eq clear_cache_def Let_def sig_def)
qed

lemma eleven_run:
  assumes "set ps \<subseteq> set eleven_names \<times> set eleven_names" and "distinct ps"
    and "(\<lambda>(f1, f2). (f1, f2, sig (regular_file 0 0), sig (regular_file 0 0))) ` set ps
      \<inter> fst ` set (cache s) = {}"
    and "length (cache s) + length ps \<le> 101"
  shows "length (cache (run_cmps eleven_files (map (\<lambda>(f1, f2). (f1, f2, False)) ps) s))
      = length (cache s) + length ps
    \<and> fst ` set (cache (run_cmps eleven_files (map (\<lambda>(f1, f2). (f1, f2, False)) ps) s))
      = fst ` set (cache s)
        \<union> (\<lambda>(f1, f2). (f1, f2, sig (regular_file 0 0), sig (regular_file 0 0))) ` set ps"
  using assms
proof (induction ps arbitrary: s)
  case Nil
  then show ?case by (simp add: run_cmps_def)
next
  case (Cons p ps)
  obtain f1 f2 where p: "p = (f1, f2)" by (cases p)
  let ?k = "(f1, f2, sig (regular_file 0 0), sig (regular_file 0 0))"
  let ?s = "snd (cmp eleven_files f1 f2 False s)"
  have mem: "f1 \<in> set eleven_names" "f2 \<in> set eleven_names"
    using Cons.prems(1) p by simp_all
  have absent: "?k \<notin> fst ` set (cache s)"
    using Cons.prems(3) p by auto
  have small: "\<not> 100 < length (cache s)"
    using Cons.prems(4) by simp
  have c: "cache ?s = AList.update ?k True (cache s)"
    using eleven_miss [OF mem absent] small by simp
  have len: "length (cache ?s) = Suc (length (cache s))"
    unfolding c using absent by (rule length_update_absent)
  have keys: "fst ` set (cache ?s) = {?k} \<union> fst ` set (cache s)"
    unfolding c by (rule dom_update)
  have "(\<lambda>(f1, f2). (f1, f2, sig (regular_file 0 0), sig (regular_file 0 0))) ` set ps
      \<inter> fst ` set (cache ?s) = {}"
    using Cons.prems(2,3) p unfolding keys by auto
  moreover have "length (cache ?s) + length ps \<le> 101"
    using Cons.prems(4) len by simp
  moreover have "set ps \<subseteq> set eleven_names \<times> set eleven_names" and "distinct ps"
    using Cons.prems(1,2) by simp_all
  ultimately have IH:
    "length (cache (run_cmps eleven_files (map (\<lambda>(f1, f2). (f1, f2, False)) ps) ?s))
      = length (cache ?s) + length ps
    \<and> fst ` set (cache (run_cmps eleven_files (map (\<lambda>(f1, f2). (f1, f2, False)) ps) ?s))
      = fst ` set (cache ?s)
        \<union> (\<lambda>(f1, f2). (f1, f2, sig (regular_file 0 0), sig (regular_file 0 0))) ` set ps"
    using Cons.IH [of ?s] by blast
  have step: "run_cmps eleven_files (map (\<lambda>(f1, f2). (f1, f2, False)) (p # ps)) s
      = run_cmps eleven_files (map (\<lambda>(f1, f2). (f1, f2, False)) ps) ?s"
    by (simp add: run_cmps_def p)
  show ?case
    unfolding step using IH len keys p by auto
qed

lemma length_eleven_names [simp]: "length eleven_names = 11"
  by (simp add: eleven_names_def)

lemma eleven_product:
  "distinct (List.product eleven_names eleven_names)"
  "length (List.product eleven_names eleven_names) = 121"
  "set (List.product eleven_names eleven_names) = set eleven_names \<times> set eleven_names"
  by (simp_all add: distinct_product eleven_names_def del: product.simps)

lemma deep_calls_map:
  "deep_calls n = map (\<lambda>(f1, f2). (f1, f2, False)) (take n (List.product eleven_names eleven_names))"
  by (simp add: deep_calls_def take_map)

lemma eleven_prefix:
  assumes "n \<le> 101"
  shows "length (cache (run_cmps eleven_files (deep_calls n) init_state)) = n"
    and "fst ` set (cache (run_cmps eleven_files (deep_calls n) init_state))
      = (\<lambda>(f1, f2). (f1, f2, sig (regular_file 0 0), sig (regular_file 0 0)))
          ` set (take n (List.product eleven_names eleven_names))"
proof -
  let ?ps = "take n (List.product eleven_names eleven_names)"
  have "set ?ps \<subseteq> set eleven_names \<times> set eleven_names"
    using set_take_subset [of n "List.product eleven_names eleven_names"]
    unfolding eleven_product(3) .
  moreover have "distinct ?ps"
    using eleven_product(1) by (rule distinct_take)
  moreover have "(\<lambda>(f1, f2). (f1, f2, sig (regular_file 0 0), sig (regular_file 0 0))) ` set ?ps
      \<inter> fst ` set (cache init_state) = {}"
    by (simp add: init_state_def)
  moreover have "length (cache init_state) + length ?ps \<le> 101"
    using assms by (simp add: init_state_def)
  ultimately have "length (cache (run_cmps eleven_files (map (\<lambda>(f1, f2). (f1, f2, False)) ?ps) init_state))
      = length (cache init_state) + length ?ps
    \<and> fst ` set (cache (run_cmps eleven_files (map (\<lambda>(f1, f2). (f1, f2, False)) ?ps) init_state))
      = fst ` set (cache init_state)
        \<union> (\<lambda>(f1, f2). (f1, f2, sig (regular_file 0 0), sig (regular_file 0 0))) ` set ?ps"
    by (rule eleven_run)
  then show "length (cache (run_cmps eleven_files (deep_calls n) init_state)) = n"
    and "fst ` set (cache (run_cmps eleven_files (deep_calls n) init_state))
      = (\<lambda>(f1, f2). (f1, f2, sig (regular_file 0 0), sig (regular_file 0 0)))
          ` set (take n (List.product eleven_names eleven_names))"
    unfolding deep_calls_map using assms by (simp_all add: init_state_def eleven_product(2))
qed

lemma eleven_flush:
  "length (cache (run_cmps eleven_files (deep_calls 102) init_state)) = 1"
proof -
  let ?prod = "List.product eleven_names eleven_names"
  let ?s = "run_cmps eleven_files (deep_calls 101) init_state"
  obtain f1 f2 where p: "?prod ! 101 = (f1, f2)" by (cases "?prod ! 101")
  have "take 102 ?prod = take 101 ?prod @ [?prod ! 101]"
    using take_Suc_conv_app_nth [of 101 ?prod] by (simp add: length_eleven_names)
  then have "deep_calls 102 = deep_calls 101 @ [(f1, f2, False)]"
    unfolding deep_calls_map by (simp add: p)
  then have run: "run_cmps eleven_files (deep_calls 102) init_state
      = snd (cmp eleven_files f1 f2 False ?s)"
    by (simp add: run_cmps_def)
  have "(f1, f2) \<in> set ?prod"
    using nth_mem [of 101 ?prod] by (simp add: eleven_product(2) p)
  then have mem: "f1 \<in> set eleven_names" "f2 \<in> set eleven_names"
    unfolding eleven_product(3) by simp_all
  have "?prod ! 101 \<notin> set (take 101 ?prod)"
    using eleven_product(1,2) by (simp add: distinct_conv_nth in_set_conv_nth)
  then have "(f1, f2, sig (regular_file 0 0), sig (regular_file 0 0)) \<notin> fst ` set (cache ?s)"
    unfolding eleven_prefix(2) [of 101, simplified] p by auto
  then have "cache (snd (cmp eleven_files f1 f2 False ?s))
    = AList.update (f1, f2, sig (regular_file 0 0), sig (regular_file 0 0)) True
        (if 100 < length (cache ?s) then [] else cache ?s)"
    by (rule eleven_miss [OF mem])
  then show ?thesis
    unfolding run by (simp add: eleven_prefix(1))
qed

text \<open>
  C1, as stated, fails: \<^verbatim>\<open>cmp\<close> tests \<^verbatim>\<open>len(_cache) > 100\<close> before it stores the new entry,
  so a cache of 100 entries is not cleared. After 100 deep comparisons with different keys
  the cache of the eleven-file example holds 100 entries, and after the 101st it holds
  101, not fewer. The 102nd is the one that clears the cache.
\<close>

theorem cache_eleven_counterexample:
  "length (deep_calls 101) = 101 \<and> distinct (deep_calls 101)
   \<and> length (cache (run_cmps eleven_files (deep_calls 100) init_state)) = 100
   \<and> length (cache (run_cmps eleven_files (deep_calls 101) init_state)) = 101
   \<and> length (cache (run_cmps eleven_files (deep_calls 102) init_state)) = 1"
proof -
  have "inj_on (\<lambda>(f1, f2). (f1, f2, False)) (set (take 101 (List.product eleven_names eleven_names)))"
    by (auto simp: inj_on_def)
  moreover have "distinct (take 101 (List.product eleven_names eleven_names))"
    using eleven_product(1) by (rule distinct_take)
  ultimately have "distinct (deep_calls 101)"
    unfolding deep_calls_map by (simp only: distinct_map)
  moreover have "length (deep_calls 101) = 101"
    by (simp add: deep_calls_map)
  ultimately show ?thesis
    by (simp add: eleven_prefix(1) eleven_flush)
qed

text \<open>
  C1, amended: the cache never holds more than 101 entries. A call of \<^verbatim>\<open>cmp\<close> leaves the
  cache as it was or stores one entry under a key that was absent; when it stores an entry
  and finds more than 100 entries, it clears the entire cache first (a full flush, no
  eviction of single entries), so that the new entry is the only one.
\<close>

theorem cache_bound:
  "length (cache (run_cmps P calls init_state)) \<le> 101
   \<and> (cache (snd (cmp P f1 f2 shallow (run_cmps P calls init_state)))
        = cache (run_cmps P calls init_state)
      \<or> (\<exists>k v. map_of (cache (run_cmps P calls init_state)) k = None
           \<and> cache (snd (cmp P f1 f2 shallow (run_cmps P calls init_state)))
             = AList.update k v
                 (if 100 < length (cache (run_cmps P calls init_state)) then []
                  else cache (run_cmps P calls init_state))))"
proof -
  have "length (cache (run_cmps P calls init_state)) \<le> 101"
    by (rule run_cmps_cache_length) (simp add: init_state_def)
  then show ?thesis
    using cmp_cache_change [of P f1 f2 shallow "run_cmps P calls init_state"] by blast
qed

theorem cache_bound_witness:
  "length (cache (run_cmps eleven_files (deep_calls 101) init_state)) \<le> 101
   \<and> length (cache (run_cmps eleven_files (deep_calls 101) init_state)) = 101
   \<and> length (cache (snd (cmp eleven_files ''k'' ''k'' False
         (run_cmps eleven_files (deep_calls 101) init_state)))) = 1"
proof -
  let ?s = "run_cmps eleven_files (deep_calls 101) init_state"
  note B = cache_bound [of eleven_files "deep_calls 101" "''k''" "''k''" False]
  have full: "length (cache ?s) = 101"
    by (simp add: eleven_prefix(1))
  have "(''k'', ''k'') \<notin> set (take 101 (List.product eleven_names eleven_names))"
    by (simp add: eleven_names_def)
  then have "(''k'', ''k'', sig (regular_file 0 0), sig (regular_file 0 0)) \<notin> fst ` set (cache ?s)"
    unfolding eleven_prefix(2) [of 101, simplified] by auto
  then have "cache (snd (cmp eleven_files ''k'' ''k'' False ?s))
    = AList.update (''k'', ''k'', sig (regular_file 0 0), sig (regular_file 0 0)) True
        (if 100 < length (cache ?s) then [] else cache ?s)"
    by (intro eleven_miss) (simp_all add: eleven_names_def)
  then have "length (cache (snd (cmp eleven_files ''k'' ''k'' False ?s))) = 1"
    by (simp add: full)
  with B full show ?thesis by simp
qed

section \<open>Deep comparison\<close>

lemma set_update_subset: "set (AList.update k v al) \<subseteq> insert (k, v) (set al)"
  by (induction al) auto

lemma cache_sound_empty [simp]: "cache_sound P []"
  by (simp add: cache_sound_def)

lemma cache_sound_update:
  assumes "cache_sound P c" and "file_bytes P f1 = Some c1" and "file_bytes P f2 = Some c2"
  shows "cache_sound P (AList.update (f1, f2, s1, s2) (c1 = c2) c)"
  using assms set_update_subset [of "(f1, f2, s1, s2)" "c1 = c2" c]
  unfolding cache_sound_def by blast

lemma cached_cmp_sound:
  assumes "cache_sound P (cache s)"
  shows "cache_sound P (cache (snd (cached_cmp P f1 f2 s1 s2 s)))"
proof (cases "map_of (cache s) (f1, f2, s1, s2)")
  case (Some v)
  with assms show ?thesis by (simp add: cached_cmp_def)
next
  case None
  show ?thesis
  proof (cases "file_bytes P f1")
    case n1: None
    with None assms show ?thesis by (simp add: cached_cmp_def do_cmp_def)
  next
    case s1: (Some c1)
    show ?thesis
    proof (cases "file_bytes P f2")
      case n2: None
      with None s1 assms show ?thesis by (simp add: cached_cmp_def do_cmp_def)
    next
      case s2: (Some c2)
      have "cache_sound P (AList.update (f1, f2, s1, s2) (c1 = c2) (cache s))"
        using assms s1 s2 by (rule cache_sound_update)
      moreover have "cache_sound P (AList.update (f1, f2, s1, s2) (c1 = c2) [])"
        using cache_sound_empty s1 s2 by (rule cache_sound_update)
      ultimately show ?thesis
        using None s1 s2
        by (simp add: cached_cmp_def do_cmp_def do_cmp_loop_eq clear_cache_def Let_def)
    qed
  qed
qed

lemma cmp_sound:
  assumes "cache_sound P (cache s)"
  shows "cache_sound P (cache (snd (cmp P f1 f2 sh s)))"
proof -
  consider "snd (cmp P f1 f2 sh s) = s"
    | st1 st2 where "cmp P f1 f2 sh s = cached_cmp P f1 f2 (sig st1) (sig st2) s"
    using cmp_cases by blast
  then show ?thesis
  proof cases
    case 1
    with assms show ?thesis by simp
  next
    case 2
    show ?thesis
      unfolding 2 using assms by (rule cached_cmp_sound)
  qed
qed

lemma run_cmps_sound:
  "cache_sound P (cache s) \<Longrightarrow> cache_sound P (cache (run_cmps P calls s))"
  unfolding run_cmps_def
  by (induction calls arbitrary: s) (auto simp: cmp_sound)

lemma run_cmps_init_sound: "cache_sound P (cache (run_cmps P calls init_state))"
  by (rule run_cmps_sound) (simp add: init_state_def)

lemma cached_cmp_result:
  assumes "cache_sound P (cache s)"
  shows "fst (cached_cmp P f1 f2 s1 s2 s)
    = (case file_bytes P f1 of
         None \<Rightarrow> Inl OSError
       | Some c1 \<Rightarrow> (case file_bytes P f2 of None \<Rightarrow> Inl OSError | Some c2 \<Rightarrow> Inr (c1 = c2)))"
proof (cases "map_of (cache s) (f1, f2, s1, s2)")
  case (Some v)
  then have "((f1, f2, s1, s2), v) \<in> set (cache s)"
    by (rule map_of_SomeD)
  then obtain c1 c2 where "file_bytes P f1 = Some c1" "file_bytes P f2 = Some c2" "v = (c1 = c2)"
    using assms unfolding cache_sound_def by blast
  with Some show ?thesis by (simp add: cached_cmp_def)
next
  case None
  then show ?thesis
    by (simp add: cached_cmp_def do_cmp_def do_cmp_loop_eq Let_def split: option.splits)
qed

lemma cmp_deep_unfold:
  "cmp P f1 f2 False s =
     (case os_stat P f1 of
        None \<Rightarrow> (Inl OSError, s)
      | Some st1 \<Rightarrow>
          (case os_stat P f2 of
             None \<Rightarrow> (Inl OSError, s)
           | Some st2 \<Rightarrow>
               if S_IFMT (st_mode st1) \<noteq> S_IFREG \<or> S_IFMT (st_mode st2) \<noteq> S_IFREG
               then (Inr False, s)
               else if st_size st1 \<noteq> st_size st2 then (Inr False, s)
               else cached_cmp P f1 f2 (sig st1) (sig st2) s))"
  by (simp add: cmp_def shallow_similar_def sig_def Let_def split: option.splits)

lemma stale_state_value:
  "stale_state =
     \<lparr>cache = [((''t1'', ''t2'', sig (regular_file 3 1), sig (regular_file 3 1)), True)],
      opened = [''t1'', ''t2'']\<rparr>"
  by (simp add: stale_state_def stale_before_def cmp_deep_unfold cached_cmp_def do_cmp_def
      do_cmp_loop_eq init_state_def clear_cache_def Let_def)

text \<open>
  C5, as stated, fails: \<^verbatim>\<open>cmp\<close> returns the entry that the cache holds for the two paths
  and their signatures, without reading the files. After \<^verbatim>\<open>cmp('t1', 't2', shallow=False)\<close>
  on equal contents, \<^verbatim>\<open>t2\<close> gets other bytes of the same length and keeps its modification
  time: \<^verbatim>\<open>cmp\<close> still returns \<^verbatim>\<open>True\<close>, and no file is opened.
\<close>

theorem cmp_deep_stale_counterexample:
  "os_stat stale_after ''t1'' = Some (regular_file 3 1)
   \<and> os_stat stale_after ''t2'' = Some (regular_file 3 1)
   \<and> file_bytes stale_after ''t1'' = Some [1, 2, 3]
   \<and> file_bytes stale_after ''t2'' = Some [9, 9, 9]
   \<and> cmp stale_after ''t1'' ''t2'' False stale_state = (Inr True, stale_state)"
  by (simp add: stale_state_value stale_after_def cmp_deep_unfold cached_cmp_def sig_def)

text \<open>
  C5, amended: in deep mode, for every pair of readable regular files, \<^verbatim>\<open>cmp\<close> returns
  \<^verbatim>\<open>False\<close> when the two \<^verbatim>\<open>st_size\<close> differ; otherwise it returns the entry of the cache
  for the two paths and their signatures when there is one, and whether the two byte
  streams are identical when there is none. So, for files whose \<^verbatim>\<open>st_size\<close> is the length
  of their contents, it returns \<^verbatim>\<open>True\<close> if and only if the byte streams are identical
  in every state whose cache entries agree with the contents of the files, in particular
  in every state that earlier calls of \<^verbatim>\<open>cmp\<close> on the same file system have left. The
  loop of \<^verbatim>\<open>_do_cmp\<close>, which reads chunks of 8 KiB, decides equality of the two streams;
  two empty streams are equal at the first read.
\<close>

theorem cmp_deep_content:
  assumes "os_stat P f1 = Some st1" and "os_stat P f2 = Some st2"
    and "S_IFMT (st_mode st1) = S_IFREG" and "S_IFMT (st_mode st2) = S_IFREG"
    and "file_bytes P f1 = Some c1" and "file_bytes P f2 = Some c2"
  shows "fst (cmp P f1 f2 False s)
      = Inr (if st_size st1 \<noteq> st_size st2 then False
             else (case map_of (cache s) (f1, f2, sig st1, sig st2) of
                     Some v \<Rightarrow> v
                   | None \<Rightarrow> c1 = c2))
    \<and> (st_size st1 = int (length c1) \<and> st_size st2 = int (length c2)
        \<and> cache_sound P (cache s)
        \<longrightarrow> fst (cmp P f1 f2 False s) = Inr (c1 = c2))
    \<and> (st_size st1 = int (length c1) \<and> st_size st2 = int (length c2)
        \<longrightarrow> fst (cmp P f1 f2 False (run_cmps P calls init_state)) = Inr (c1 = c2))
    \<and> do_cmp_loop c1 c2 = (c1 = c2) \<and> do_cmp_loop [] []"
proof -
  have sound: "fst (cmp P f1 f2 False t) = Inr (c1 = c2)"
    if "cache_sound P (cache t)" and sz: "st_size st1 = int (length c1)"
      "st_size st2 = int (length c2)" for t
  proof (cases "length c1 = length c2")
    case True
    then show ?thesis
      using assms sz cached_cmp_result [OF that(1), of f1 f2 "sig st1" "sig st2"]
      by (simp add: cmp_deep_unfold)
  next
    case False
    then have "c1 \<noteq> c2" by auto
    with False show ?thesis
      using assms sz by (simp add: cmp_deep_unfold)
  qed
  have A: "fst (cmp P f1 f2 False s)
      = Inr (if st_size st1 \<noteq> st_size st2 then False
             else (case map_of (cache s) (f1, f2, sig st1, sig st2) of
                     Some v \<Rightarrow> v
                   | None \<Rightarrow> c1 = c2))"
    using assms
    by (simp add: cmp_deep_unfold cached_cmp_def do_cmp_def do_cmp_loop_eq Let_def
        split: option.splits)
  have B: "st_size st1 = int (length c1) \<and> st_size st2 = int (length c2)
        \<and> cache_sound P (cache s)
        \<longrightarrow> fst (cmp P f1 f2 False s) = Inr (c1 = c2)"
    using sound [of s] by simp
  have C: "st_size st1 = int (length c1) \<and> st_size st2 = int (length c2)
        \<longrightarrow> fst (cmp P f1 f2 False (run_cmps P calls init_state)) = Inr (c1 = c2)"
    using sound [OF run_cmps_init_sound] by simp
  have D: "do_cmp_loop c1 c2 = (c1 = c2)" "do_cmp_loop [] []"
    by (simp_all add: do_cmp_loop_eq)
  show ?thesis
    by (intro conjI; fact A B C D)
qed

theorem cmp_deep_content_witness:
  "os_stat example ''L/x'' = Some (regular_file 8193 3)
   \<and> os_stat example ''R/x'' = Some (regular_file 8193 3)
   \<and> file_bytes example ''L/x'' = Some (zeros 8192 @ [1])
   \<and> file_bytes example ''R/x'' = Some (zeros 8192 @ [2])
   \<and> file_bytes example ''L/y'' = Some (zeros 8192 @ [1])
   \<and> st_size (regular_file 8193 3) = int (length (zeros 8192 @ [1]))
   \<and> st_size (regular_file 8193 3) = int (length (zeros 8192 @ [2]))
   \<and> cache_sound example (cache init_state)
   \<and> fst (cmp example ''L/x'' ''R/x'' False init_state) = Inr False
   \<and> fst (cmp example ''L/x'' ''L/y'' False
        (run_cmps example [(''L/x'', ''R/x'', False), (''L/a'', ''R/a'', True)] init_state)) = Inr True"
proof -
  have e: "cache_sound example (cache init_state)"
    by (simp add: init_state_def)
  have z: "st_size (regular_file 8193 3) = int (length (zeros 8192 @ [1]))"
    "st_size (regular_file 8193 3) = int (length (zeros 8192 @ [2]))"
    by (simp_all add: regular_file_def)
  note T1 = cmp_deep_content [OF example_stats(8,9) regular_file_is_regular(1)
        regular_file_is_regular(1) example_contents(1,2), of init_state "[]"]
  note T2 = cmp_deep_content [OF example_stats(8,10) regular_file_is_regular(1)
        regular_file_is_regular(1) example_contents(1,3), of init_state
        "[(''L/x'', ''R/x'', False), (''L/a'', ''R/a'', True)]"]
  have a: "fst (cmp example ''L/x'' ''R/x'' False init_state) = Inr False"
    using T1 [THEN conjunct2, THEN conjunct1] z e by simp
  have b: "fst (cmp example ''L/x'' ''L/y'' False
        (run_cmps example [(''L/x'', ''R/x'', False), (''L/a'', ''R/a'', True)] init_state)) = Inr True"
    using T2 [THEN conjunct2, THEN conjunct2, THEN conjunct1] z by simp
  show ?thesis
    by (intro conjI; fact example_stats(8,9) example_contents(1,2,3) z e a b)
qed




section \<open>Failures of \<^verbatim>\<open>os.stat\<close> on single names\<close>

lemma ucmp_stat_failure:
  assumes "os_stat P f1 = None \<or> os_stat P f2 = None"
  shows "ucmp P f1 f2 sh s = (Inr 2, s)"
  using assms by (auto simp: ucmp_def cmp_def split: option.splits)

lemma cmpfiles_loop_append:
  "cmpfiles_loop P a b sh (xs @ ys) res s =
     (case cmpfiles_loop P a b sh xs res s of
        (Inl e, s') \<Rightarrow> (Inl e, s')
      | (Inr res', s') \<Rightarrow> cmpfiles_loop P a b sh ys res' s')"
  by (induction xs arbitrary: res s) (auto split: prod.splits sum.splits)

lemma cmpfiles_loop_acc:
  "cmpfiles_loop P a b sh xs (r0, r1, r2) s =
     (case cmpfiles_loop P a b sh xs ([], [], []) s of
        (Inl e, s') \<Rightarrow> (Inl e, s')
      | (Inr (q0, q1, q2), s') \<Rightarrow> (Inr (r0 @ q0, r1 @ q1, r2 @ q2), s'))"
proof (induction xs arbitrary: r0 r1 r2 s)
  case Nil
  show ?case by simp
next
  case (Cons x xs)
  note IH = Cons.IH
  show ?case
    by (subst (1 2) cmpfiles_loop.simps)
      (auto simp: IH [of "r0 @ [x]" r1 r2] IH [of r0 "r1 @ [x]" r2] IH [of r0 r1 "r2 @ [x]"]
        IH [of "[x]" "[]" "[]"] IH [of "[]" "[x]" "[]"] IH [of "[]" "[]" "[x]"]
        split: prod.splits sum.splits)
qed

lemma phase2_step_class:
  "phase2_step P d x (cd, cf, cfun) =
     (if entry_class P d x = 0 then (cd @ [x], cf, cfun)
      else if entry_class P d x = 1 then (cd, cf @ [x], cfun)
      else (cd, cf, cfun @ [x]))"
  by (auto simp: phase2_step_def entry_class_def Let_def split: option.splits)

lemma phase2_fold_filter:
  "fold (phase2_step P d) xs (cd, cf, cfun) =
     (cd @ filter (\<lambda>x. entry_class P d x = 0) xs,
      cf @ filter (\<lambda>x. entry_class P d x = 1) xs,
      cfun @ filter (\<lambda>x. entry_class P d x \<noteq> 0 \<and> entry_class P d x \<noteq> 1) xs)"
  by (induction xs arbitrary: cd cf cfun) (simp_all add: phase2_step_class)

lemma phase2_filter:
  "phase2 P d xs =
     (filter (\<lambda>x. entry_class P d x = 0) xs,
      filter (\<lambda>x. entry_class P d x = 1) xs,
      filter (\<lambda>x. entry_class P d x \<noteq> 0 \<and> entry_class P d x \<noteq> 1) xs)"
  by (simp add: phase2_def phase2_fold_filter)

lemma entry_class_stat_failure:
  assumes "os_stat P (path_join P (left d) x) = None \<or> os_stat P (path_join P (right d) x) = None"
  shows "entry_class P d x = 2"
  using assms by (auto simp: entry_class_def phase2_step_def Let_def split: option.splits)

text \<open>
  C6: a name \<open>x\<close> for which \<^verbatim>\<open>os.stat\<close> fails on either side is caught and does not end
  the comparison of the other names. \<^verbatim>\<open>_cmp\<close> returns 2 for it; \<^verbatim>\<open>cmpfiles\<close> on a list
  with \<open>x\<close> returns what it returns without \<open>x\<close>, with \<open>x\<close> added to the third list
  (\<^verbatim>\<open>funny_files\<close>), and raises only what it raises without \<open>x\<close>; \<^verbatim>\<open>phase2\<close> on a list
  with \<open>x\<close> computes the lists it computes without \<open>x\<close>, with \<open>x\<close> added to
  \<^verbatim>\<open>common_funny\<close>.
\<close>

theorem stat_failure_is_funny:
  assumes "os_stat P (path_join P (left d) x) = None \<or> os_stat P (path_join P (right d) x) = None"
  shows "ucmp P (path_join P (left d) x) (path_join P (right d) x) sh s = (Inr 2, s)
    \<and> (\<forall>e s'. cmpfiles P (left d) (right d) (pre @ post) sh s = (Inl e, s')
          \<longrightarrow> cmpfiles P (left d) (right d) (pre @ x # post) sh s = (Inl e, s'))
    \<and> (\<forall>same diff funny s'.
          cmpfiles P (left d) (right d) (pre @ post) sh s = (Inr (same, diff, funny), s')
          \<longrightarrow> (\<exists>funny'. cmpfiles P (left d) (right d) (pre @ x # post) sh s
                  = (Inr (same, diff, funny'), s')
                \<and> mset funny' = add_mset x (mset funny)))
    \<and> (\<forall>common_dirs common_files common_funny.
          phase2 P d (pre @ post) = (common_dirs, common_files, common_funny)
          \<longrightarrow> (\<exists>common_funny'. phase2 P d (pre @ x # post)
                  = (common_dirs, common_files, common_funny')
                \<and> mset common_funny' = add_mset x (mset common_funny)))"
proof -
  have funny: "entry_class P d x = 2"
    using assms by (rule entry_class_stat_failure)
  have p2: "\<forall>common_dirs common_files common_funny.
      phase2 P d (pre @ post) = (common_dirs, common_files, common_funny)
      \<longrightarrow> (\<exists>common_funny'. phase2 P d (pre @ x # post)
              = (common_dirs, common_files, common_funny')
            \<and> mset common_funny' = add_mset x (mset common_funny))"
    by (simp add: phase2_filter funny)
  let ?a = "left d" and ?b = "right d"
  have u: "ucmp P (path_join P ?a x) (path_join P ?b x) sh s = (Inr 2, s)" for s
    using assms by (rule ucmp_stat_failure)
  have step: "cmpfiles_loop P ?a ?b sh (x # post) (r0, r1, r2) s
      = cmpfiles_loop P ?a ?b sh post (r0, r1, r2 @ [x]) s" for r0 r1 r2 s
    by (simp add: u)
  obtain r s1 where pre: "cmpfiles_loop P ?a ?b sh pre ([], [], []) s = (r, s1)"
    by (cases "cmpfiles_loop P ?a ?b sh pre ([], [], []) s")
  show ?thesis
  proof (cases r)
    case (Inl e)
    then show ?thesis
      using u pre p2 by (simp add: cmpfiles_def cmpfiles_loop_append)
  next
    case (Inr res)
    obtain r0 r1 r2 where res: "res = (r0, r1, r2)" by (cases res)
    obtain q s2 where post: "cmpfiles_loop P ?a ?b sh post ([], [], []) s1 = (q, s2)"
      by (cases "cmpfiles_loop P ?a ?b sh post ([], [], []) s1")
    have without_x: "cmpfiles P ?a ?b (pre @ post) sh s =
        (case q of Inl e \<Rightarrow> (Inl e, s2)
         | Inr (q0, q1, q2) \<Rightarrow> (Inr (r0 @ q0, r1 @ q1, r2 @ q2), s2))"
      unfolding cmpfiles_def cmpfiles_loop_append pre Inr res
      by (simp add: cmpfiles_loop_acc [of P ?a ?b sh post r0 r1 r2] post split: sum.splits)
    have "cmpfiles P ?a ?b (pre @ x # post) sh s
        = cmpfiles_loop P ?a ?b sh post (r0, r1, r2 @ [x]) s1"
      unfolding cmpfiles_def cmpfiles_loop_append pre Inr res
      by (simp add: step del: cmpfiles_loop.simps)
    then have with_x: "cmpfiles P ?a ?b (pre @ x # post) sh s =
        (case q of Inl e \<Rightarrow> (Inl e, s2)
         | Inr (q0, q1, q2) \<Rightarrow> (Inr (r0 @ q0, r1 @ q1, (r2 @ [x]) @ q2), s2))"
      by (simp add: cmpfiles_loop_acc [of P ?a ?b sh post r0 r1 "r2 @ [x]"] post split: sum.splits)
    have "(\<forall>e s'. cmpfiles P ?a ?b (pre @ post) sh s = (Inl e, s')
          \<longrightarrow> cmpfiles P ?a ?b (pre @ x # post) sh s = (Inl e, s'))
      \<and> (\<forall>same diff funny s'.
          cmpfiles P ?a ?b (pre @ post) sh s = (Inr (same, diff, funny), s')
          \<longrightarrow> (\<exists>funny'. cmpfiles P ?a ?b (pre @ x # post) sh s
                  = (Inr (same, diff, funny'), s')
                \<and> mset funny' = add_mset x (mset funny)))"
      unfolding with_x without_x
      by (cases q) (auto split: prod.splits)
    with u p2 show ?thesis by blast
  qed
qed

lemma example_joins:
  "path_join example ''L'' x = ''L/'' @ x \<or> take 1 x = ''/''"
  "path_join example ''R'' x = ''R/'' @ x \<or> take 1 x = ''/''"
  by (simp_all add: example_def posix_join_def)

lemma example_dircmp_fields [simp]:
  "left example_dircmp = ''L''" "right example_dircmp = ''R''"
  by (simp_all add: example_dircmp_def dircmp_init_def)

lemma example_is_similar:
  "is_similar 100 110 = Inr True" "is_similar 100 200 = Inr False"
  by (rule is_similar_inside, simp_all) (rule is_similar_outside, simp_all)

theorem stat_failure_is_funny_witness:
  "os_stat example (path_join example (left example_dircmp) ''gone'') = Some (regular_file 1 1)
   \<and> os_stat example (path_join example (right example_dircmp) ''gone'') = None
   \<and> ucmp example ''L/gone'' ''R/gone'' True init_state = (Inr 2, init_state)
   \<and> cmpfiles example ''L'' ''R'' [''a'', ''b''] True init_state
       = (Inr ([''a''], [''b''], []), init_state)
   \<and> cmpfiles example ''L'' ''R'' [''a'', ''gone'', ''b''] True init_state
       = (Inr ([''a''], [''b''], [''gone'']), init_state)
   \<and> phase2 example example_dircmp [''a'', ''sub''] = ([''sub''], [''a''], [])
   \<and> phase2 example example_dircmp [''a'', ''gone'', ''sub''] = ([''sub''], [''a''], [''gone''])"
proof -
  have j: "path_join example ''L'' ''gone'' = ''L/gone''" "path_join example ''R'' ''gone'' = ''R/gone''"
    "path_join example ''L'' ''a'' = ''L/a''" "path_join example ''R'' ''a'' = ''R/a''"
    "path_join example ''L'' ''b'' = ''L/b''" "path_join example ''R'' ''b'' = ''R/b''"
    "path_join example ''L'' ''sub'' = ''L/sub''" "path_join example ''R'' ''sub'' = ''R/sub''"
    by (simp_all add: example_def posix_join_def)
  have st: "os_stat example ''L/sub'' = Some directory" "os_stat example ''R/sub'' = Some directory"
    by (simp_all add: example_def example_stat_def)
  have gone: "os_stat example (path_join example (left example_dircmp) ''gone'') = None
      \<or> os_stat example (path_join example (right example_dircmp) ''gone'') = None"
    by (simp add: j example_stats)
  have ca: "cmp example ''L/a'' ''R/a'' True s = (Inr True, s)" for s
    using cmp_shallow_regular(1) [OF example_stats(2,3) regular_file_is_regular(1)
        regular_file_is_regular(1), of s]
    by (simp add: example_is_similar)
  have cb: "cmp example ''L/b'' ''R/b'' True s = (Inr False, s)" for s
    using cmp_shallow_regular(2) [OF example_stats(4,5) regular_file_is_regular(1)
        regular_file_is_regular(1), of s]
    by (simp add: example_is_similar)
  have without: "cmpfiles example ''L'' ''R'' [''a'', ''b''] True init_state
      = (Inr ([''a''], [''b''], []), init_state)"
    by (simp add: cmpfiles_def j ucmp_def ca cb)
  have p2: "phase2 example example_dircmp [''a'', ''sub''] = ([''sub''], [''a''], [])"
    by (simp add: phase2_def phase2_step_def j st example_stats Let_def S_ISDIR_def S_ISREG_def
        S_IFDIR_def S_IFREG_def)
    (simp add: S_IFMT_def S_IFDIR_def S_IFREG_def)
  note T = stat_failure_is_funny [OF gone, of True init_state "[''a'']" "[''b'']"]
  have "ucmp example ''L/gone'' ''R/gone'' True init_state = (Inr 2, init_state)"
    using T by (simp add: j)
  moreover have "cmpfiles example ''L'' ''R'' [''a'', ''gone'', ''b''] True init_state
      = (Inr ([''a''], [''b''], [''gone'']), init_state)"
    using T without by auto
  moreover have "phase2 example example_dircmp [''a'', ''gone'', ''sub''] = ([''sub''], [''a''], [''gone''])"
    using stat_failure_is_funny [OF gone, of True init_state "[''a'']" "[''sub'']"] p2 by auto
  ultimately show ?thesis
    using without p2 by (simp add: j example_stats)
qed


section \<open>The partitions of \<^verbatim>\<open>dircmp\<close>\<close>

lemma dict_updates: "dict (zip ks vs) = AList.updates ks vs []"
  by (simp add: dict_def AList.updates_def)

lemma keys_dict_zip: "set (keys (dict (zip (map f xs) xs))) = f ` set xs"
proof -
  have "set (keys (dict (zip (map f xs) xs))) = dom (map_of (dict (zip (map f xs) xs)))"
    by (simp add: keys_def dom_map_of_conv_image_fst)
  also have "\<dots> = f ` set xs"
    by (simp add: dict_updates updates_conv' dom_map_upds)
  finally show ?thesis .
qed

lemma map_upds_lookup_cases:
  "(m(map f xs [\<mapsto>] xs)) k = Some x \<Longrightarrow> (x \<in> set xs \<and> f x = k) \<or> m k = Some x"
proof (induction xs arbitrary: m)
  case Nil
  then show ?case by simp
next
  case (Cons y ys)
  from Cons.prems have "((m(f y \<mapsto> y))(map f ys [\<mapsto>] ys)) k = Some x"
    by simp
  from Cons.IH [OF this] show ?case
    by (auto split: if_splits)
qed

lemma getitem_dict_zip_general:
  assumes "k \<in> f ` set xs"
  shows "\<exists>x. getitem (dict (zip (map f xs) xs)) k = Inr x \<and> x \<in> set xs \<and> f x = k"
proof -
  have "k \<in> dom (Map.empty(map f xs [\<mapsto>] xs))"
    using assms by (simp add: dom_map_upds)
  then obtain x where x: "(Map.empty(map f xs [\<mapsto>] xs)) k = Some x"
    by blast
  from map_upds_lookup_cases [OF this] have "x \<in> set xs \<and> f x = k"
    by simp
  with x show ?thesis
    by (simp add: getitem_def dict_updates updates_conv')
qed

lemma map_raising_getitem_general:
  assumes "set ks \<subseteq> f ` set xs"
  shows "\<exists>ys. map_raising (getitem (dict (zip (map f xs) xs))) ks = Inr ys
    \<and> set ys \<subseteq> set xs \<and> map f ys = ks"
  using assms
proof (induction ks)
  case Nil
  then show ?case by simp
next
  case (Cons k ks)
  then obtain ys where ys: "map_raising (getitem (dict (zip (map f xs) xs))) ks = Inr ys"
    "set ys \<subseteq> set xs" "map f ys = ks"
    by auto
  from Cons.prems obtain x where x: "getitem (dict (zip (map f xs) xs)) k = Inr x"
    "x \<in> set xs" "f x = k"
    using getitem_dict_zip_general [of k f xs] by auto
  show ?case
    using x ys by simp
qed

lemma distinct_keys_dict_zip: "distinct (keys (dict (zip ks vs)))"
  by (simp add: keys_def dict_updates distinct_updates)

lemma phase1_general:
  "\<exists>common left_only right_only.
      phase1 P ll rl = Inr (common, left_only, right_only)
      \<and> set common \<subseteq> set ll \<and> set left_only \<subseteq> set ll \<and> set right_only \<subseteq> set rl
      \<and> normcase P ` set common = normcase P ` set ll \<inter> normcase P ` set rl
      \<and> normcase P ` set left_only = normcase P ` set ll - normcase P ` set rl
      \<and> normcase P ` set right_only = normcase P ` set rl - normcase P ` set ll
      \<and> distinct (map (normcase P) common) \<and> distinct (map (normcase P) left_only)
      \<and> distinct (map (normcase P) right_only)"
proof -
  let ?f = "normcase P"
  let ?a = "dict (zip (map ?f ll) ll)" and ?b = "dict (zip (map ?f rl) rl)"
  have ka: "set (keys ?a) = ?f ` set ll" and kb: "set (keys ?b) = ?f ` set rl"
    by (rule keys_dict_zip)+
  have da: "distinct (keys ?a)" and db: "distinct (keys ?b)"
    by (rule distinct_keys_dict_zip)+
  obtain common where c:
    "map_raising (getitem ?a) (filter (contains ?b) (keys ?a)) = Inr common"
    "set common \<subseteq> set ll" "map ?f common = filter (contains ?b) (keys ?a)"
    using map_raising_getitem_general [of "filter (contains ?b) (keys ?a)" ?f ll] ka by auto
  obtain left_only where l:
    "map_raising (getitem ?a) (filter (\<lambda>k. \<not> contains ?b k) (keys ?a)) = Inr left_only"
    "set left_only \<subseteq> set ll" "map ?f left_only = filter (\<lambda>k. \<not> contains ?b k) (keys ?a)"
    using map_raising_getitem_general [of "filter (\<lambda>k. \<not> contains ?b k) (keys ?a)" ?f ll] ka
    by auto
  obtain right_only where r:
    "map_raising (getitem ?b) (filter (\<lambda>k. \<not> contains ?a k) (keys ?b)) = Inr right_only"
    "set right_only \<subseteq> set rl" "map ?f right_only = filter (\<lambda>k. \<not> contains ?a k) (keys ?b)"
    using map_raising_getitem_general [of "filter (\<lambda>k. \<not> contains ?a k) (keys ?b)" ?f rl] kb
    by auto
  have p: "phase1 P ll rl = Inr (common, left_only, right_only)"
    by (simp add: phase1_def Let_def c(1) l(1) r(1))
  have ic: "?f ` set common = ?f ` set ll \<inter> ?f ` set rl"
  proof -
    have "?f ` set common = set (map ?f common)" by simp
    also have "\<dots> = ?f ` set ll \<inter> ?f ` set rl"
      unfolding c(3) by (auto simp: contains_def ka kb)
    finally show ?thesis .
  qed
  have il: "?f ` set left_only = ?f ` set ll - ?f ` set rl"
  proof -
    have "?f ` set left_only = set (map ?f left_only)" by simp
    also have "\<dots> = ?f ` set ll - ?f ` set rl"
      unfolding l(3) by (auto simp: contains_def ka kb)
    finally show ?thesis .
  qed
  have ir: "?f ` set right_only = ?f ` set rl - ?f ` set ll"
  proof -
    have "?f ` set right_only = set (map ?f right_only)" by simp
    also have "\<dots> = ?f ` set rl - ?f ` set ll"
      unfolding r(3) by (auto simp: contains_def ka kb)
    finally show ?thesis .
  qed
  have dc: "distinct (map ?f common)" "distinct (map ?f left_only)" "distinct (map ?f right_only)"
    unfolding c(3) l(3) r(3) using da db by simp_all
  show ?thesis
    by (intro exI conjI; fact p c(2) l(2) r(2) ic il ir dc)
qed

lemma image_partition_disjoint:
  assumes "f ` A = f ` L \<inter> f ` R" and "f ` B = f ` L - f ` R" and "f ` C = f ` R - f ` L"
  shows "A \<inter> B = {}" and "A \<inter> C = {}" and "B \<inter> C = {}"
    and "f ` (A \<union> B \<union> C) = f ` (L \<union> R)"
proof -
  show "A \<inter> B = {}"
  proof (rule ccontr)
    assume "A \<inter> B \<noteq> {}"
    then obtain x where "x \<in> A" "x \<in> B" by blast
    then have "f x \<in> f ` A" "f x \<in> f ` B" by simp_all
    then show False unfolding assms by simp
  qed
  show "A \<inter> C = {}"
  proof (rule ccontr)
    assume "A \<inter> C \<noteq> {}"
    then obtain x where "x \<in> A" "x \<in> C" by blast
    then have "f x \<in> f ` A" "f x \<in> f ` C" by simp_all
    then show False unfolding assms by simp
  qed
  show "B \<inter> C = {}"
  proof (rule ccontr)
    assume "B \<inter> C \<noteq> {}"
    then obtain x where "x \<in> B" "x \<in> C" by blast
    then have "f x \<in> f ` B" "f x \<in> f ` C" by simp_all
    then show False unfolding assms by simp
  qed
  have "f ` (A \<union> B \<union> C) = f ` A \<union> f ` B \<union> f ` C"
    by (simp add: image_Un)
  also have "\<dots> = f ` L \<union> f ` R"
    unfolding assms by blast
  finally show "f ` (A \<union> B \<union> C) = f ` (L \<union> R)"
    by (simp add: image_Un)
qed

lemma image_partition_exact:
  assumes "inj_on f (L \<union> R)" and "A \<subseteq> L" and "B \<subseteq> L" and "C \<subseteq> R"
    and "f ` (A \<union> B \<union> C) = f ` (L \<union> R)"
  shows "A \<union> B \<union> C = L \<union> R"
proof -
  have sub: "A \<union> B \<union> C \<subseteq> L \<union> R"
    using assms(2-4) by blast
  then show ?thesis
    using assms(1,5) by (metis inj_on_image_eq_iff subset_refl)
qed

lemma is_similar_False_differ:
  assumes "is_similar a b = Inr False"
  shows "a \<noteq> b"
proof
  assume "a = b"
  with assms have "is_similar b b = Inr False" by simp
  then show False
    using is_similar_same [of b] is_similar_zero_divisor [of 0] by (cases "b = 0") simp_all
qed

lemma cmp_shallow_state: "cmp P f1 f2 True s = (fst (cmp P f1 f2 True init_state), s)"
proof (cases "os_stat P f1")
  case None
  then show ?thesis by (simp add: cmp_def)
next
  case s1: (Some st1)
  show ?thesis
  proof (cases "os_stat P f2")
    case None
    with s1 show ?thesis by (simp add: cmp_def)
  next
    case s2: (Some st2)
    show ?thesis
    proof (cases "is_similar (st_size st1) (st_size st2)")
      case (Inl e)
      with s1 s2 show ?thesis
        by (simp add: cmp_def shallow_similar_def Let_def)
    next
      case (Inr similar)
      show ?thesis
      proof (cases similar)
        case True
        with Inr s1 s2 show ?thesis
          by (simp add: cmp_def shallow_similar_def Let_def)
      next
        case False
        with Inr have "st_size st1 \<noteq> st_size st2"
          by (auto dest: is_similar_False_differ)
        with False Inr s1 s2 show ?thesis
          by (simp add: cmp_def shallow_similar_def Let_def sig_def)
      qed
    qed
  qed
qed

lemma ucmp_shallow_state: "ucmp P f1 f2 True s = (fst (ucmp P f1 f2 True init_state), s)"
  unfolding ucmp_def
  by (subst (1 2) cmp_shallow_state) (auto split: sum.splits)

lemma cmpfiles_loop_shallow:
  assumes "cmpfiles_loop P a b True xs (r0, r1, r2) s = (Inr (q0, q1, q2), s')"
  shows "q0 = r0 @ filter (\<lambda>x. shallow_index P a b x = Inr 0) xs
    \<and> q1 = r1 @ filter (\<lambda>x. shallow_index P a b x = Inr 1) xs
    \<and> q2 = r2 @ filter (\<lambda>x. shallow_index P a b x = Inr 2) xs"
  using assms
proof (induction xs arbitrary: r0 r1 r2 s)
  case Nil
  then show ?case by simp
next
  case (Cons x xs)
  have u: "ucmp P (path_join P a x) (path_join P b x) True s = (shallow_index P a b x, s)"
    unfolding shallow_index_def by (rule ucmp_shallow_state)
  show ?case
  proof (cases "shallow_index P a b x")
    case (Inl e)
    with Cons.prems u show ?thesis by simp
  next
    case (Inr i)
    consider "i = 0" | "i = 1" | "i = 2" | "2 < i" by linarith
    then show ?thesis
    proof cases
      case 1
      with Cons.prems u Inr have "cmpfiles_loop P a b True xs (r0 @ [x], r1, r2) s = (Inr (q0, q1, q2), s')"
        by simp
      from Cons.IH [OF this] 1 Inr show ?thesis by simp
    next
      case 2
      with Cons.prems u Inr have "cmpfiles_loop P a b True xs (r0, r1 @ [x], r2) s = (Inr (q0, q1, q2), s')"
        by simp
      from Cons.IH [OF this] 2 Inr show ?thesis by simp
    next
      case 3
      with Cons.prems u Inr have "cmpfiles_loop P a b True xs (r0, r1, r2 @ [x]) s = (Inr (q0, q1, q2), s')"
        by simp
      from Cons.IH [OF this] 3 Inr show ?thesis by simp
    next
      case 4
      with Cons.prems u Inr show ?thesis by simp
    qed
  qed
qed

lemma cmpfiles_loop_mset:
  assumes "cmpfiles_loop P a b sh xs (r0, r1, r2) s = (Inr (q0, q1, q2), s')"
  shows "mset q0 + mset q1 + mset q2 = mset r0 + mset r1 + mset r2 + mset xs"
  using assms
proof (induction xs arbitrary: r0 r1 r2 s)
  case Nil
  then show ?case by simp
next
  case (Cons x xs)
  obtain r s1 where u: "ucmp P (path_join P a x) (path_join P b x) sh s = (r, s1)"
    by (cases "ucmp P (path_join P a x) (path_join P b x) sh s")
  show ?case
  proof (cases r)
    case (Inl e)
    with Cons.prems u show ?thesis by simp
  next
    case (Inr i)
    consider "i = 0" | "i = 1" | "i = 2" | "2 < i" by linarith
    then show ?thesis
    proof cases
      case 1
      with Cons.prems u Inr have "cmpfiles_loop P a b sh xs (r0 @ [x], r1, r2) s1 = (Inr (q0, q1, q2), s')"
        by simp
      from Cons.IH [OF this] show ?thesis by simp
    next
      case 2
      with Cons.prems u Inr have "cmpfiles_loop P a b sh xs (r0, r1 @ [x], r2) s1 = (Inr (q0, q1, q2), s')"
        by simp
      from Cons.IH [OF this] show ?thesis by simp
    next
      case 3
      with Cons.prems u Inr have "cmpfiles_loop P a b sh xs (r0, r1, r2 @ [x]) s1 = (Inr (q0, q1, q2), s')"
        by simp
      from Cons.IH [OF this] show ?thesis by simp
    next
      case 4
      with Cons.prems u Inr show ?thesis by simp
    qed
  qed
qed

lemma phase3_sets:
  assumes "phase3 P d common_files s = (Inr (same_files, diff_files, funny_files), s')"
  shows "set same_files \<union> set diff_files \<union> set funny_files = set common_files"
    and "set same_files \<inter> set diff_files = {}"
    and "set same_files \<inter> set funny_files = {}"
    and "set diff_files \<inter> set funny_files = {}"
proof -
  have loop: "cmpfiles_loop P (left d) (right d) True common_files ([], [], []) s
      = (Inr (same_files, diff_files, funny_files), s')"
    using assms by (simp add: phase3_def cmpfiles_def)
  note F = cmpfiles_loop_shallow [OF loop]
  have "mset same_files + mset diff_files + mset funny_files = mset common_files"
    using cmpfiles_loop_mset [OF loop] by simp
  then have "set_mset (mset same_files + mset diff_files + mset funny_files) = set_mset (mset common_files)"
    by simp
  then show "set same_files \<union> set diff_files \<union> set funny_files = set common_files"
    by simp
  show "set same_files \<inter> set diff_files = {}"
    and "set same_files \<inter> set funny_files = {}"
    and "set diff_files \<inter> set funny_files = {}"
    using F by auto
qed

lemma phase2_sets:
  assumes "phase2 P d common = (common_dirs, common_files, common_funny)"
  shows "set common_dirs \<union> set common_files \<union> set common_funny = set common"
    and "set common_dirs \<inter> set common_files = {}"
    and "set common_dirs \<inter> set common_funny = {}"
    and "set common_files \<inter> set common_funny = {}"
  using assms unfolding phase2_filter by auto

text \<open>
  C3, amended: for every pair of filtered listings, \<^verbatim>\<open>phase1\<close> returns three lists
  \<^verbatim>\<open>common\<close>, \<^verbatim>\<open>left_only\<close> and \<^verbatim>\<open>right_only\<close> that have no name in common and partition
  the union of the two listings up to \<^verbatim>\<open>normcase\<close>: \<^verbatim>\<open>common\<close> holds one name, taken
  from the left listing, for each \<^verbatim>\<open>normcase\<close> value that occurs on both sides,
  \<^verbatim>\<open>left_only\<close> one name of the left listing for each value that occurs on the left only,
  and \<^verbatim>\<open>right_only\<close> one name of the right listing for each value that occurs on the right
  only. When no two different names of the two listings have the same \<^verbatim>\<open>normcase\<close>, the
  three lists partition the union of the listings itself. \<^verbatim>\<open>phase2\<close> partitions
  \<^verbatim>\<open>common\<close> into \<^verbatim>\<open>common_dirs\<close>, \<^verbatim>\<open>common_files\<close> and \<^verbatim>\<open>common_funny\<close>, and whenever
  \<^verbatim>\<open>phase3\<close> returns its three lists \<^verbatim>\<open>same_files\<close>, \<^verbatim>\<open>diff_files\<close> and \<^verbatim>\<open>funny_files\<close>,
  they partition \<^verbatim>\<open>common_files\<close>.
\<close>

theorem dircmp_partitions:
  "\<exists>common left_only right_only common_dirs common_files common_funny.
      phase1 P left_list right_list = Inr (common, left_only, right_only)
      \<and> set common \<subseteq> set left_list \<and> set left_only \<subseteq> set left_list
      \<and> set right_only \<subseteq> set right_list
      \<and> set common \<inter> set left_only = {} \<and> set common \<inter> set right_only = {}
      \<and> set left_only \<inter> set right_only = {}
      \<and> normcase P ` set common = normcase P ` set left_list \<inter> normcase P ` set right_list
      \<and> normcase P ` set left_only = normcase P ` set left_list - normcase P ` set right_list
      \<and> normcase P ` set right_only = normcase P ` set right_list - normcase P ` set left_list
      \<and> normcase P ` (set common \<union> set left_only \<union> set right_only)
          = normcase P ` (set left_list \<union> set right_list)
      \<and> distinct (map (normcase P) common) \<and> distinct (map (normcase P) left_only)
      \<and> distinct (map (normcase P) right_only)
      \<and> (inj_on (normcase P) (set left_list \<union> set right_list)
          \<longrightarrow> set common \<union> set left_only \<union> set right_only = set left_list \<union> set right_list)
      \<and> phase2 P d common = (common_dirs, common_files, common_funny)
      \<and> set common_dirs \<union> set common_files \<union> set common_funny = set common
      \<and> set common_dirs \<inter> set common_files = {} \<and> set common_dirs \<inter> set common_funny = {}
      \<and> set common_files \<inter> set common_funny = {}
      \<and> (\<forall>same_files diff_files funny_files s s'.
            phase3 P d common_files s = (Inr (same_files, diff_files, funny_files), s')
            \<longrightarrow> set same_files \<union> set diff_files \<union> set funny_files = set common_files
              \<and> set same_files \<inter> set diff_files = {} \<and> set same_files \<inter> set funny_files = {}
              \<and> set diff_files \<inter> set funny_files = {})"
proof -
  from phase1_general [of P left_list right_list] show ?thesis
  proof (elim exE conjE)
  fix common left_only right_only
  assume p1: "phase1 P left_list right_list = Inr (common, left_only, right_only)"
    and sub: "set common \<subseteq> set left_list" "set left_only \<subseteq> set left_list"
      "set right_only \<subseteq> set right_list"
    and img: "normcase P ` set common = normcase P ` set left_list \<inter> normcase P ` set right_list"
      "normcase P ` set left_only = normcase P ` set left_list - normcase P ` set right_list"
      "normcase P ` set right_only = normcase P ` set right_list - normcase P ` set left_list"
    and dist: "distinct (map (normcase P) common)" "distinct (map (normcase P) left_only)"
      "distinct (map (normcase P) right_only)"
  note D = image_partition_disjoint [OF img]
  have exact: "inj_on (normcase P) (set left_list \<union> set right_list)
      \<longrightarrow> set common \<union> set left_only \<union> set right_only = set left_list \<union> set right_list"
  proof
    assume i: "inj_on (normcase P) (set left_list \<union> set right_list)"
    show "set common \<union> set left_only \<union> set right_only = set left_list \<union> set right_list"
      by (rule image_partition_exact [OF i sub D(4)])
  qed
  obtain common_dirs common_files common_funny where p2:
    "phase2 P d common = (common_dirs, common_files, common_funny)"
    by (cases "phase2 P d common")
  note S2 = phase2_sets [OF p2]
  have P3: "\<forall>same_files diff_files funny_files s s'.
      phase3 P d common_files s = (Inr (same_files, diff_files, funny_files), s')
      \<longrightarrow> set same_files \<union> set diff_files \<union> set funny_files = set common_files
        \<and> set same_files \<inter> set diff_files = {} \<and> set same_files \<inter> set funny_files = {}
        \<and> set diff_files \<inter> set funny_files = {}"
  proof (intro allI impI)
    fix same_files diff_files funny_files s s'
    assume h: "phase3 P d common_files s = (Inr (same_files, diff_files, funny_files), s')"
    show "set same_files \<union> set diff_files \<union> set funny_files = set common_files
        \<and> set same_files \<inter> set diff_files = {} \<and> set same_files \<inter> set funny_files = {}
        \<and> set diff_files \<inter> set funny_files = {}"
      using phase3_sets [OF h] by simp
  qed
  show ?thesis
    by (intro exI conjI; fact p1 sub D img dist exact p2 S2 P3)
  qed
qed

lemma nt_normcase_values:
  "nt_normcase ''L'' = ''l''" "nt_normcase ''R'' = ''r''"
  "nt_normcase ''Foo'' = ''foo''" "nt_normcase ''foo'' = ''foo''"
  by code_simp+

lemma nt_phase0: "phase0 nt_example (dircmp_init ''L'' ''R'' None None) = Inr ([''Foo''], [''foo''])"
  by (simp add: phase0_def nt_example_def dircmp_init_def filter_skip_def DEFAULT_IGNORES_def
      nt_normcase_values)

lemma nt_phase1: "phase1 nt_example [''Foo''] [''foo''] = Inr ([''Foo''], [], [])"
  by (simp add: phase1_def nt_example_def dict_def keys_def contains_def getitem_def
      nt_normcase_values Let_def)

text \<open>
  C3, as stated, fails: \<^verbatim>\<open>phase1\<close> matches the names of the two listings by their
  \<^verbatim>\<open>normcase\<close> and reports a match under the name of the left side. On a Windows host
  with \<^verbatim>\<open>Foo\<close> on the left and \<^verbatim>\<open>foo\<close> on the right, \<^verbatim>\<open>common\<close> is \<^verbatim>\<open>['Foo']\<close> and the
  name \<^verbatim>\<open>foo\<close> of the right listing is in none of the three lists.
\<close>

theorem dircmp_normcase_counterexample:
  "phase0 nt_example (dircmp_init ''L'' ''R'' None None) = Inr ([''Foo''], [''foo''])
   \<and> phase1 nt_example [''Foo''] [''foo''] = Inr ([''Foo''], [], [])
   \<and> set [''Foo''] \<union> set [] \<union> set [] \<noteq> set [''Foo''] \<union> set [''foo'']"
  by (simp add: nt_phase0 nt_phase1)

lemma example_phase0:
  "phase0 example example_dircmp
     = Inr ([''a'', ''b'', ''gone'', ''sub'', ''x'', ''y''], [''a'', ''b'', ''gone'', ''sub'', ''x''])"
  by (simp add: phase0_def example_def example_listdir_def example_dircmp_def dircmp_init_def
      filter_skip_def DEFAULT_IGNORES_def)

lemma example_phase1:
  "phase1 example [''a'', ''b'', ''gone'', ''sub'', ''x'', ''y''] [''a'', ''b'', ''gone'', ''sub'', ''x'']
     = Inr ([''a'', ''b'', ''gone'', ''sub'', ''x''], [''y''], [])"
  by (simp add: phase1_def example_def dict_def keys_def contains_def getitem_def
      posix_normcase_def)

lemma example_paths:
  "path_join example ''L'' ''a'' = ''L/a''" "path_join example ''R'' ''a'' = ''R/a''"
  "path_join example ''L'' ''b'' = ''L/b''" "path_join example ''R'' ''b'' = ''R/b''"
  "path_join example ''L'' ''x'' = ''L/x''" "path_join example ''R'' ''x'' = ''R/x''"
  "path_join example ''L'' ''gone'' = ''L/gone''" "path_join example ''R'' ''gone'' = ''R/gone''"
  "path_join example ''L'' ''sub'' = ''L/sub''" "path_join example ''R'' ''sub'' = ''R/sub''"
  by (simp_all add: example_def posix_join_def)

lemma example_phase2:
  "phase2 example example_dircmp [''a'', ''b'', ''gone'', ''sub'', ''x'']
     = ([''sub''], [''a'', ''b'', ''x''], [''gone''])"
proof -
  have st: "os_stat example ''L/sub'' = Some directory" "os_stat example ''R/sub'' = Some directory"
    by (simp_all add: example_def example_stat_def)
  have m: "S_IFMT S_IFREG = S_IFREG" "S_IFMT S_IFDIR = S_IFDIR" "S_IFREG \<noteq> S_IFDIR"
    by (simp_all add: S_IFMT_def S_IFDIR_def S_IFREG_def)
  show ?thesis
    by (simp add: phase2_def phase2_step_def example_paths st example_stats Let_def
        S_ISDIR_def S_ISREG_def m)
qed

lemma example_phase3:
  "phase3 example example_dircmp [''a'', ''b'', ''x''] init_state
     = (Inr ([''a'', ''x''], [''b''], []), init_state)"
proof -
  have ca: "cmp example ''L/a'' ''R/a'' True s = (Inr True, s)" for s
    using cmp_shallow_regular(1) [OF example_stats(2,3) regular_file_is_regular(1)
        regular_file_is_regular(1), of s]
    by (simp add: example_is_similar)
  have cb: "cmp example ''L/b'' ''R/b'' True s = (Inr False, s)" for s
    using cmp_shallow_regular(2) [OF example_stats(4,5) regular_file_is_regular(1)
        regular_file_is_regular(1), of s]
    by (simp add: example_is_similar)
  have cx: "cmp example ''L/x'' ''R/x'' True s = (Inr True, s)" for s
    using cmp_shallow_regular(1) [OF example_stats(8,9) regular_file_is_regular(1)
        regular_file_is_regular(1), of s]
    by (simp add: is_similar_same)
  show ?thesis
    by (simp add: phase3_def cmpfiles_def example_paths ucmp_def ca cb cx)
qed

theorem dircmp_partitions_witness:
  "inj_on (normcase example)
     (set [''a'', ''b'', ''gone'', ''sub'', ''x'', ''y''] \<union> set [''a'', ''b'', ''gone'', ''sub'', ''x''])
   \<and> phase0 example example_dircmp
     = Inr ([''a'', ''b'', ''gone'', ''sub'', ''x'', ''y''], [''a'', ''b'', ''gone'', ''sub'', ''x''])
   \<and> phase1 example [''a'', ''b'', ''gone'', ''sub'', ''x'', ''y''] [''a'', ''b'', ''gone'', ''sub'', ''x'']
     = Inr ([''a'', ''b'', ''gone'', ''sub'', ''x''], [''y''], [])
   \<and> set [''a'', ''b'', ''gone'', ''sub'', ''x''] \<union> set [''y''] \<union> set []
     = set [''a'', ''b'', ''gone'', ''sub'', ''x'', ''y''] \<union> set [''a'', ''b'', ''gone'', ''sub'', ''x'']
   \<and> phase2 example example_dircmp [''a'', ''b'', ''gone'', ''sub'', ''x'']
     = ([''sub''], [''a'', ''b'', ''x''], [''gone''])
   \<and> phase3 example example_dircmp [''a'', ''b'', ''x''] init_state
     = (Inr ([''a'', ''x''], [''b''], []), init_state)
   \<and> set [''a'', ''x''] \<union> set [''b''] \<union> set [] = set [''a'', ''b'', ''x'']"
proof -
  let ?ll = "[''a'', ''b'', ''gone'', ''sub'', ''x'', ''y'']" and ?rl = "[''a'', ''b'', ''gone'', ''sub'', ''x'']"
  have "normcase example = (\<lambda>s. s)"
    by (simp add: example_def posix_normcase_def fun_eq_iff)
  then have inj: "inj_on (normcase example) (set ?ll \<union> set ?rl)"
    by (simp add: inj_on_def)
  have R: "set [''a'', ''b'', ''gone'', ''sub'', ''x''] \<union> set [''y''] \<union> set [] = set ?ll \<union> set ?rl
      \<and> set [''a'', ''x''] \<union> set [''b''] \<union> set [] = set [''a'', ''b'', ''x'']"
    using dircmp_partitions [of example ?ll ?rl example_dircmp]
  proof (elim exE conjE)
    fix common left_only right_only common_dirs common_files common_funny
    assume p1: "phase1 example ?ll ?rl = Inr (common, left_only, right_only)"
      and ex: "inj_on (normcase example) (set ?ll \<union> set ?rl)
          \<longrightarrow> set common \<union> set left_only \<union> set right_only = set ?ll \<union> set ?rl"
      and p2: "phase2 example example_dircmp common = (common_dirs, common_files, common_funny)"
      and p3: "\<forall>same_files diff_files funny_files s s'.
          phase3 example example_dircmp common_files s = (Inr (same_files, diff_files, funny_files), s')
          \<longrightarrow> set same_files \<union> set diff_files \<union> set funny_files = set common_files
            \<and> set same_files \<inter> set diff_files = {} \<and> set same_files \<inter> set funny_files = {}
            \<and> set diff_files \<inter> set funny_files = {}"
    have c: "common = [''a'', ''b'', ''gone'', ''sub'', ''x'']" "left_only = [''y'']" "right_only = []"
      using p1 by (simp_all add: example_phase1)
    then have cf: "common_files = [''a'', ''b'', ''x'']"
      using p2 by (simp add: example_phase2)
    have e3: "phase3 example example_dircmp common_files init_state
        = (Inr ([''a'', ''x''], [''b''], []), init_state)"
      unfolding cf by (rule example_phase3)
    note r1 = ex [rule_format, OF inj, unfolded c]
    note r3 = p3 [rule_format, OF e3, THEN conjunct1, unfolded cf]
    show ?thesis
      by (intro conjI; fact r1 r3)
  qed
  show ?thesis
    by (intro conjI; fact inj example_phase0 example_phase1 example_phase2 example_phase3
        R [THEN conjunct1] R [THEN conjunct2])
qed

end
